theory Spec2Isabelle
  imports Main
begin

section \<open>The host environment: DOM nodes, timers, mutation observers\<close>

text \<open>
  The library (\<open>lib.ts\<close>) waits for an element to appear under a root (\<open>select\<close>) or for an
  element to leave the document (\<open>waitForRemovalFromDom\<close>), by polling with \<open>setInterval\<close>
  or by a \<open>MutationObserver\<close>, each raced against a \<open>setTimeout\<close>.

  A DOM node is an element (with tag name, id, connectivity flag and children) or a text
  node. \<open>instanceofElement\<close> is the test \<open>node instanceof Element\<close>.
\<close>

datatype node =
    instanceofElement: Element (tagName: string) (ident: string) (isConnected: bool) (childNodes: "node list")
  | Text (isConnected: bool) (textData: string)

text \<open>A node followed by all its descendants, in tree order.\<close>

fun subtree :: "node \<Rightarrow> node list" where
  "subtree (Element t i c cs) = Element t i c cs # concat (map subtree cs)"
| "subtree (Text c d) = [Text c d]"

definition descendants :: "node \<Rightarrow> node list" where
  "descendants n = tl (subtree n)"

type_synonym ref = nat
type_synonym handle = nat

datatype error = TypeError

datatype jsval = VNode node | VBool bool | VNull | VUndefined

datatype promiseState = Pending | Fulfilled jsval | Rejected

text \<open>
  The closures handed to \<open>setInterval\<close>/\<open>setTimeout\<close> and to \<open>new MutationObserver\<close>, with
  the variables they capture (selector, ancestor, element).
\<close>

datatype callback = SelectPoll string ref | RemovalPoll ref | TimeoutFired

datatype observerCallback = SelectObserver string | RemovalObserver ref

record timer =
  callback :: callback
  delay :: int
  repeats :: bool

text \<open>
  The two bodies of \<open>cleanupFunction\<close>: \<open>clearInterval(intervalId); clearTimeout(timeoutId)\<close>
  and \<open>clearTimeout(timeoutId); observer.disconnect()\<close>, with the handles they capture.
\<close>

datatype cleanup =
    ClearIntervalAndTimeout handle handle
  | ClearTimeoutAndDisconnect handle handle

text \<open>
  A log of what a call did, kept beside the state: each call of \<open>isSearchedElement\<close>, each
  run of \<open>cleanupFunction\<close>, each call of \<open>resolve\<close> and \<open>reject\<close>.
\<close>

datatype action = Inspected node | CleanupRun | ResolveCalled jsval | RejectCalled

record mutationRecord =
  target :: node
  addedNodes :: "node list"

text \<open>
  The state of one call: the host's part (the current state of every DOM object, the
  selector engine \<open>node.matches(selector)\<close>, the list of active timers, the registered
  mutation observers, the next free handle) and the promise executor's part (the variable
  \<open>cleanupFunction\<close>, \<open>None\<close> while it is still undefined, and the promise).
  Delays are whole milliseconds. The selector engine is total: selectors the host would
  refuse with a syntax error are outside the model.
\<close>

record state =
  heap :: "ref \<Rightarrow> node"
  matchesImpl :: "string \<Rightarrow> node \<Rightarrow> bool"
  timers :: "(handle \<times> timer) list"
  observers :: "(handle \<times> observerCallback \<times> ref) list"
  nextHandle :: handle
  cleanupFunction :: "cleanup option"
  promise :: promiseState
  trace :: "action list"
  uncaught :: "error list"

definition fresh :: "(ref \<Rightarrow> node) \<Rightarrow> (string \<Rightarrow> node \<Rightarrow> bool) \<Rightarrow> state" where
  "fresh hp m = \<lparr>heap = hp, matchesImpl = m, timers = [], observers = [], nextHandle = 0,
     cleanupFunction = None, promise = Pending, trace = [], uncaught = []\<rparr>"

text \<open>The global \<open>document\<close>.\<close>

definition document :: ref where
  "document = 0"

text \<open>
  \<open>root.querySelector(selector)\<close>: the first descendant of the root, in tree order, that is
  an element matching the selector.
\<close>

definition querySelector :: "state \<Rightarrow> string \<Rightarrow> node \<Rightarrow> node option" where
  "querySelector s selector root =
     find (\<lambda>n. instanceofElement n \<and> matchesImpl s selector n) (descendants root)"

definition setInterval :: "callback \<Rightarrow> int \<Rightarrow> state \<Rightarrow> handle \<times> state" where
  "setInterval cb ms s =
     (nextHandle s,
      s\<lparr>timers := timers s @ [(nextHandle s, \<lparr>callback = cb, delay = ms, repeats = True\<rparr>)],
        nextHandle := Suc (nextHandle s)\<rparr>)"

definition setTimeout :: "callback \<Rightarrow> int \<Rightarrow> state \<Rightarrow> handle \<times> state" where
  "setTimeout cb ms s =
     (nextHandle s,
      s\<lparr>timers := timers s @ [(nextHandle s, \<lparr>callback = cb, delay = ms, repeats = False\<rparr>)],
        nextHandle := Suc (nextHandle s)\<rparr>)"

text \<open>\<open>clearTimeout\<close> and \<open>clearInterval\<close> share one pool of handles; an unknown handle is ignored.\<close>

definition clearTimeout :: "handle \<Rightarrow> state \<Rightarrow> state" where
  "clearTimeout h s = s\<lparr>timers := filter (\<lambda>e. fst e \<noteq> h) (timers s)\<rparr>"

definition clearInterval :: "handle \<Rightarrow> state \<Rightarrow> state" where
  "clearInterval h s = s\<lparr>timers := filter (\<lambda>e. fst e \<noteq> h) (timers s)\<rparr>"

text \<open>\<open>new MutationObserver(cb)\<close>, \<open>observer.observe(target, ...)\<close>, \<open>observer.disconnect()\<close>.\<close>

definition newMutationObserver :: "observerCallback \<Rightarrow> state \<Rightarrow> (handle \<times> observerCallback) \<times> state" where
  "newMutationObserver cb s = ((nextHandle s, cb), s\<lparr>nextHandle := Suc (nextHandle s)\<rparr>)"

definition observe :: "handle \<times> observerCallback \<Rightarrow> ref \<Rightarrow> state \<Rightarrow> state" where
  "observe ob tgt s = s\<lparr>observers := observers s @ [(fst ob, snd ob, tgt)]\<rparr>"

definition disconnect :: "handle \<Rightarrow> state \<Rightarrow> state" where
  "disconnect h s = s\<lparr>observers := filter (\<lambda>e. fst e \<noteq> h) (observers s)\<rparr>"

section \<open>The promise and the cleanup function\<close>

definition resolve :: "jsval \<Rightarrow> state \<Rightarrow> state" where
  "resolve v s =
     s\<lparr>promise := (case promise s of Pending \<Rightarrow> Fulfilled v | p \<Rightarrow> p),
       trace := trace s @ [ResolveCalled v]\<rparr>"

definition reject :: "state \<Rightarrow> state" where
  "reject s =
     s\<lparr>promise := (case promise s of Pending \<Rightarrow> Rejected | p \<Rightarrow> p),
       trace := trace s @ [RejectCalled]\<rparr>"

fun runCleanup :: "cleanup \<Rightarrow> state \<Rightarrow> state" where
  "runCleanup (ClearIntervalAndTimeout intervalId timeoutId) s =
     clearTimeout timeoutId (clearInterval intervalId s)"
| "runCleanup (ClearTimeoutAndDisconnect timeoutId observer) s =
     disconnect observer (clearTimeout timeoutId s)"

text \<open>
  The call \<open>cleanupFunction()\<close>: a \<open>TypeError\<close> while the variable is still undefined.
\<close>

definition callCleanup :: "state \<Rightarrow> error + state" where
  "callCleanup s =
     (case cleanupFunction s of
        None \<Rightarrow> Inl TypeError
      | Some c \<Rightarrow> Inr (runCleanup c (s\<lparr>trace := trace s @ [CleanupRun]\<rparr>)))"

section \<open>The callbacks\<close>

text \<open>The interval callback of \<open>selectWithInterval\<close>.\<close>

definition selectIntervalCallback :: "string \<Rightarrow> ref \<Rightarrow> state \<Rightarrow> error + state" where
  "selectIntervalCallback selector ancestor s =
     (case querySelector s selector (heap s ancestor) of
        None \<Rightarrow> Inr s
      | Some element \<Rightarrow>
          (case callCleanup s of
             Inl e \<Rightarrow> Inl e
           | Inr s' \<Rightarrow> Inr (resolve (VNode element) s')))"

text \<open>The interval callback of \<open>waitForRemovalFromDomWithInterval\<close>.\<close>

definition removalIntervalCallback :: "ref \<Rightarrow> state \<Rightarrow> error + state" where
  "removalIntervalCallback element s =
     (if \<not> isConnected (heap s element) then
        (case callCleanup s of
           Inl e \<Rightarrow> Inl e
         | Inr s' \<Rightarrow> Inr (resolve (VBool True) s'))
      else Inr s)"

text \<open>The timeout callback, the same in all four implementations.\<close>

definition timeoutCallback :: "state \<Rightarrow> error + state" where
  "timeoutCallback s =
     (case callCleanup s of
        Inl e \<Rightarrow> Inl e
      | Inr s' \<Rightarrow> Inr (reject s'))"

text \<open>
  The observer callback of \<open>selectOnlyObserver\<close>. \<open>isSearchedElement\<close> returns whether the
  node was the searched one; \<open>addedNodesLoop\<close> (the inner \<open>for\<close>) returns \<open>True\<close> when
  the callback has returned from inside it.
\<close>

definition isSearchedElement :: "string \<Rightarrow> node \<Rightarrow> state \<Rightarrow> error + (bool \<times> state)" where
  "isSearchedElement selector n s0 =
     (let s = s0\<lparr>trace := trace s0 @ [Inspected n]\<rparr> in
      if \<not> instanceofElement n then Inr (False, s)
      else if matchesImpl s selector n then
        (case callCleanup s of
           Inl e \<Rightarrow> Inl e
         | Inr s' \<Rightarrow> Inr (True, resolve (VNode n) s'))
      else Inr (False, s))"

fun addedNodesLoop :: "string \<Rightarrow> node list \<Rightarrow> state \<Rightarrow> error + (bool \<times> state)" where
  "addedNodesLoop selector [] s = Inr (False, s)"
| "addedNodesLoop selector (child # rest) s =
     (case isSearchedElement selector child s of
        Inl e \<Rightarrow> Inl e
      | Inr (found, s') \<Rightarrow>
          if found then Inr (True, s') else addedNodesLoop selector rest s')"

fun selectObserverCallback :: "string \<Rightarrow> mutationRecord list \<Rightarrow> state \<Rightarrow> error + state" where
  "selectObserverCallback selector [] s = Inr s"
| "selectObserverCallback selector (mutation # rest) s =
     (case isSearchedElement selector (target mutation) s of
        Inl e \<Rightarrow> Inl e
      | Inr (found, s') \<Rightarrow>
          if found then Inr s'
          else (case addedNodesLoop selector (addedNodes mutation) s' of
                  Inl e \<Rightarrow> Inl e
                | Inr (returned, s'') \<Rightarrow>
                    if returned then Inr s''
                    else selectObserverCallback selector rest s''))"

text \<open>The observer callback of \<open>waitForRemovalFromDomWithMutationObserver\<close>.\<close>

definition removalObserverCallback :: "ref \<Rightarrow> mutationRecord list \<Rightarrow> state \<Rightarrow> error + state" where
  "removalObserverCallback element mutationRecords s =
     (if \<not> isConnected (heap s element) then
        (case callCleanup s of
           Inl e \<Rightarrow> Inl e
         | Inr s' \<Rightarrow> Inr (resolve (VBool True) s'))
      else Inr s)"

section \<open>The event loop\<close>

fun runCallback :: "callback \<Rightarrow> state \<Rightarrow> error + state" where
  "runCallback (SelectPoll selector ancestor) s = selectIntervalCallback selector ancestor s"
| "runCallback (RemovalPoll element) s = removalIntervalCallback element s"
| "runCallback TimeoutFired s = timeoutCallback s"

fun runObserverCallback :: "observerCallback \<Rightarrow> mutationRecord list \<Rightarrow> state \<Rightarrow> error + state" where
  "runObserverCallback (SelectObserver selector) recs s = selectObserverCallback selector recs s"
| "runObserverCallback (RemovalObserver element) recs s = removalObserverCallback element recs s"

text \<open>
  An exception that leaves a callback is reported by the host and the callback's task
  ends. Every callback above calls \<open>cleanupFunction()\<close> before it changes anything, so the
  state at the throw is the state the callback started in.
\<close>

definition report :: "error + state \<Rightarrow> state \<Rightarrow> state" where
  "report r s = (case r of Inl e \<Rightarrow> s\<lparr>uncaught := uncaught s @ [e]\<rparr> | Inr s' \<Rightarrow> s')"

text \<open>
  The host's events. \<open>TimerFires h\<close>: the timer with handle \<open>h\<close> is due; a handle that is
  no longer in the list of active timers does nothing, and a timeout leaves the list when
  it fires. \<open>Mutation hp recs\<close>: a script changed the DOM, the objects are now as in \<open>hp\<close>,
  and the batch \<open>recs\<close> of mutation records (when there is one) goes to every observer that
  is still registered.
\<close>

datatype event = TimerFires handle | Mutation "ref \<Rightarrow> node" "mutationRecord list"

fun notify :: "(handle \<times> observerCallback \<times> ref) list \<Rightarrow> mutationRecord list \<Rightarrow> state \<Rightarrow> state" where
  "notify [] recs s = s"
| "notify (ob # obs) recs s =
     notify obs recs
       (if map_of (observers s) (fst ob) = None then s
        else report (runObserverCallback (fst (snd ob)) recs s) s)"

fun deliver :: "event \<Rightarrow> state \<Rightarrow> state" where
  "deliver (TimerFires h) s =
     (case map_of (timers s) h of
        None \<Rightarrow> s
      | Some t \<Rightarrow>
          (let s1 = (if repeats t then s else clearTimeout h s)
           in report (runCallback (callback t) s1) s1))"
| "deliver (Mutation hp recs) s =
     (let s1 = s\<lparr>heap := hp\<rparr>
      in if recs = [] then s1 else notify (observers s1) recs s1)"

fun run :: "event list \<Rightarrow> state \<Rightarrow> state" where
  "run [] s = s"
| "run (e # es) s = run es (deliver e s)"

section \<open>The four implementations and the two entry points\<close>

text \<open>
  How an async function stands after its synchronous part: it has returned, it has thrown,
  or it waits in \<open>try { return await promise } catch { return c }\<close>.
\<close>

datatype async = Returned jsval | Threw error | AwaitTryCatch jsval

datatype completion = Return jsval | Throw error

text \<open>What the caller of the async function has observed so far, if anything.\<close>

fun settled :: "async \<Rightarrow> state \<Rightarrow> completion option" where
  "settled (Returned v) s = Some (Return v)"
| "settled (Threw e) s = Some (Throw e)"
| "settled (AwaitTryCatch c) s =
     (case promise s of
        Pending \<Rightarrow> None
      | Fulfilled v \<Rightarrow> Some (Return v)
      | Rejected \<Rightarrow> Some (Return c))"

record descriptor =
  variant :: string
  timeoutInMil :: "int option"
  intervalInMil :: "int option"

text \<open>
  The strategy argument: a number, an object, \<open>null\<close>, or left out (\<open>undefined\<close>), in which
  case the parameter's default applies.
\<close>

datatype strategy = Number int | Descriptor descriptor | NullValue | Absent

text \<open>\<open>x ?? d\<close> and a parameter default \<open>x = d\<close>, on a value that is a number or undefined.\<close>

fun orDefault :: "'a option \<Rightarrow> 'a \<Rightarrow> 'a" where
  "orDefault None d = d"
| "orDefault (Some x) d = x"

definition newPromise :: "state \<Rightarrow> state" where
  "newPromise s = s\<lparr>cleanupFunction := None, promise := Pending\<rparr>"

definition selectOnlyObserver :: "string \<Rightarrow> ref \<Rightarrow> descriptor \<Rightarrow> state \<Rightarrow> async \<times> state" where
  "selectOnlyObserver selector ancestor options s =
     (let timeoutMs = orDefault (timeoutInMil options) 10000;
          (observer, s1) = newMutationObserver (SelectObserver selector) (newPromise s);
          s2 = observe observer ancestor s1;
          (timeoutId, s3) = setTimeout TimeoutFired timeoutMs s2;
          s4 = s3\<lparr>cleanupFunction := Some (ClearTimeoutAndDisconnect timeoutId (fst observer))\<rparr>
      in (AwaitTryCatch VNull, s4))"

definition selectWithInterval :: "string \<Rightarrow> ref \<Rightarrow> descriptor \<Rightarrow> state \<Rightarrow> async \<times> state" where
  "selectWithInterval selector ancestor options s =
     (let timeoutMs = orDefault (timeoutInMil options) 10000;
          intervalMs = orDefault (intervalInMil options) 50;
          (intervalId, s1) = setInterval (SelectPoll selector ancestor) intervalMs (newPromise s);
          (timeoutId, s2) = setTimeout TimeoutFired timeoutMs s1;
          s3 = s2\<lparr>cleanupFunction := Some (ClearIntervalAndTimeout intervalId timeoutId)\<rparr>
      in (AwaitTryCatch VNull, s3))"

definition waitForRemovalFromDomWithMutationObserver :: "ref \<Rightarrow> int option \<Rightarrow> state \<Rightarrow> async \<times> state" where
  "waitForRemovalFromDomWithMutationObserver element timeoutArg s =
     (let timeoutMs = orDefault timeoutArg 10000;
          (observer, s1) = newMutationObserver (RemovalObserver element) (newPromise s);
          s2 = observe observer document s1;
          (timeoutId, s3) = setTimeout TimeoutFired timeoutMs s2;
          s4 = s3\<lparr>cleanupFunction := Some (ClearTimeoutAndDisconnect timeoutId (fst observer))\<rparr>
      in (AwaitTryCatch (VBool False), s4))"

definition waitForRemovalFromDomWithInterval :: "ref \<Rightarrow> int option \<Rightarrow> int option \<Rightarrow> state \<Rightarrow> async \<times> state" where
  "waitForRemovalFromDomWithInterval element timeoutArg intervalArg s =
     (let timeoutMs = orDefault timeoutArg 10000;
          intervalMs = orDefault intervalArg 50;
          (intervalId, s1) = setInterval (RemovalPoll element) intervalMs (newPromise s);
          (timeoutId, s2) = setTimeout TimeoutFired timeoutMs s1;
          s3 = s2\<lparr>cleanupFunction := Some (ClearIntervalAndTimeout intervalId timeoutId)\<rparr>
      in (AwaitTryCatch (VBool False), s3))"

text \<open>
  \<open>typeof strategy === "number" ? { variant: "interval", timeoutInMil: strategy } : strategy\<close>,
  after the parameter default; \<open>None\<close> is the value \<open>null\<close>, whose \<open>variant\<close> cannot be read.
  The entry points then switch on \<open>variant\<close>; the switch has no default case, so any other
  variant falls out of the function, which returns \<open>undefined\<close>. The root is always passed
  (the default \<open>document\<close> of \<open>ancestor\<close> is the reference \<open>document\<close> above).
\<close>

definition defaultStrategy :: descriptor where
  "defaultStrategy = \<lparr>variant = ''interval'', timeoutInMil = Some 10000, intervalInMil = Some 50\<rparr>"

fun strategyParsed :: "strategy \<Rightarrow> descriptor option" where
  "strategyParsed (Number n) = Some \<lparr>variant = ''interval'', timeoutInMil = Some n, intervalInMil = None\<rparr>"
| "strategyParsed (Descriptor d) = Some d"
| "strategyParsed NullValue = None"
| "strategyParsed Absent = Some defaultStrategy"

definition select :: "string \<Rightarrow> ref \<Rightarrow> strategy \<Rightarrow> state \<Rightarrow> async \<times> state" where
  "select selector ancestor strategy s =
     (case querySelector s selector (heap s ancestor) of
        Some early \<Rightarrow> (Returned (VNode early), s)
      | None \<Rightarrow>
          (case strategyParsed strategy of
             None \<Rightarrow> (Threw TypeError, s)
           | Some d \<Rightarrow>
               if variant d = ''interval'' then selectWithInterval selector ancestor d s
               else if variant d = ''observer'' then selectOnlyObserver selector ancestor d s
               else (Returned VUndefined, s)))"

definition waitForRemovalFromDom :: "ref \<Rightarrow> strategy \<Rightarrow> state \<Rightarrow> async \<times> state" where
  "waitForRemovalFromDom element strategy s =
     (if \<not> isConnected (heap s element) then (Returned (VBool True), s)
      else
        (case strategyParsed strategy of
           None \<Rightarrow> (Threw TypeError, s)
         | Some d \<Rightarrow>
             if variant d = ''interval'' then
               waitForRemovalFromDomWithInterval element (timeoutInMil d) (intervalInMil d) s
             else if variant d = ''observer'' then
               waitForRemovalFromDomWithMutationObserver element (timeoutInMil d) s
             else (Returned VUndefined, s)))"

section \<open>Vocabulary for the properties\<close>

text \<open>
  \<open>logged\<close> appends to the log. \<open>isMatch\<close> is the test \<open>isSearchedElement\<close> makes.
  \<open>inspectionOrder\<close> is the order the specification gives for one batch: record by record,
  the target first, then that record's added nodes. \<open>scanned\<close> is a scan of a list of nodes
  that stops at the first match, runs the cleanup and resolves with that node.
  \<open>control\<close> keeps the cleanup, resolve and reject entries of the log. A call is \<open>armed\<close>
  while it waits with its cleanup function assigned and covering every active timer and
  observer, \<open>finished\<close> once it has settled, and \<open>idle\<close> when nothing was set up.
  \<open>timeoutsOnly\<close> says of a list of timers that the one-shot timers among them carry the
  timeout callback.
\<close>

definition isMatch :: "state \<Rightarrow> string \<Rightarrow> node \<Rightarrow> bool" where
  "isMatch s selector n = (instanceofElement n \<and> matchesImpl s selector n)"

definition inspectionOrder :: "mutationRecord list \<Rightarrow> node list" where
  "inspectionOrder recs = concat (map (\<lambda>m. target m # addedNodes m) recs)"

definition logged :: "action list \<Rightarrow> state \<Rightarrow> state" where
  "logged as s = s\<lparr>trace := trace s @ as\<rparr>"

definition scanned :: "string \<Rightarrow> cleanup \<Rightarrow> node list \<Rightarrow> state \<Rightarrow> bool \<times> state" where
  "scanned selector c ns s =
     (case find (isMatch s selector) ns of
        None \<Rightarrow> (False, logged (map Inspected ns) s)
      | Some n \<Rightarrow>
          (True, resolve (VNode n) (runCleanup c
             (logged (map Inspected (takeWhile (\<lambda>x. \<not> isMatch s selector x) ns) @ [Inspected n, CleanupRun]) s))))"

fun covers :: "cleanup \<Rightarrow> state \<Rightarrow> bool" where
  "covers (ClearIntervalAndTimeout intervalId timeoutId) s =
     (fst ` set (timers s) \<subseteq> {intervalId, timeoutId} \<and> observers s = [])"
| "covers (ClearTimeoutAndDisconnect timeoutId observer) s =
     (fst ` set (timers s) \<subseteq> {timeoutId} \<and> fst ` set (observers s) \<subseteq> {observer})"

fun isControl :: "action \<Rightarrow> bool" where
  "isControl (Inspected n) = False"
| "isControl CleanupRun = True"
| "isControl (ResolveCalled v) = True"
| "isControl RejectCalled = True"

definition control :: "state \<Rightarrow> action list" where
  "control s = filter isControl (trace s)"

definition armed :: "state \<Rightarrow> bool" where
  "armed s = (promise s = Pending \<and> control s = [] \<and> (\<exists>c. cleanupFunction s = Some c \<and> covers c s))"

definition finished :: "state \<Rightarrow> bool" where
  "finished s = (timers s = [] \<and> observers s = [] \<and>
     ((\<exists>v. promise s = Fulfilled v \<and> control s = [CleanupRun, ResolveCalled v])
      \<or> (promise s = Rejected \<and> control s = [CleanupRun, RejectCalled])))"

definition idle :: "state \<Rightarrow> bool" where
  "idle s = (timers s = [] \<and> observers s = [] \<and> promise s = Pending \<and> control s = [])"

definition good :: "state \<Rightarrow> bool" where
  "good s = (armed s \<or> finished s \<or> idle s)"

definition timeoutsOnly :: "(handle \<times> timer) list \<Rightarrow> bool" where
  "timeoutsOnly ts = (\<forall>e \<in> set ts. \<not> repeats (snd e) \<longrightarrow> callback (snd e) = TimeoutFired)"

section \<open>Example pages and calls\<close>

text \<open>
  A selector engine that knows id selectors only (\<open>#test\<close> matches the element with id
  \<open>test\<close>), two pages and the batches that turn one into the other. Object 0 is the root
  searched under, object 1 an element whose removal is awaited.
\<close>

definition exampleMatches :: "string \<Rightarrow> node \<Rightarrow> bool" where
  "exampleMatches selector n = (selector = CHR ''#'' # ident n)"

definition testDiv :: node where
  "testDiv = Element ''div'' ''test'' True []"

definition otherTest :: node where
  "otherTest = Element ''span'' ''test'' True []"

definition wrapper :: node where
  "wrapper = Element ''div'' ''wrapper'' True [testDiv]"

definition emptyPage :: "ref \<Rightarrow> node" where
  "emptyPage r = (if r = 0 then Element ''body'' ''root'' True [Text True ''hello'']
                  else Element ''p'' ''here'' True [])"

definition pageWithTest :: "ref \<Rightarrow> node" where
  "pageWithTest r = (if r = 0 then Element ''body'' ''root'' True [Text True ''hello'', testDiv]
                     else Element ''p'' ''gone'' False [])"

definition nestedPage :: "ref \<Rightarrow> node" where
  "nestedPage r = (if r = 0 then Element ''body'' ''root'' True [Text True ''hello'', wrapper]
                   else Element ''p'' ''here'' True [])"

definition appendBatch :: "mutationRecord list" where
  "appendBatch = [\<lparr>target = pageWithTest 0, addedNodes = [testDiv]\<rparr>]"

definition nestedBatch :: "mutationRecord list" where
  "nestedBatch = [\<lparr>target = nestedPage 0, addedNodes = [wrapper]\<rparr>]"

definition twoRecordBatch :: "mutationRecord list" where
  "twoRecordBatch =
     [\<lparr>target = pageWithTest 0, addedNodes = [Text True ''x'', testDiv, otherTest]\<rparr>,
      \<lparr>target = otherTest, addedNodes = []\<rparr>]"

definition intervalStrategy :: strategy where
  "intervalStrategy = Descriptor \<lparr>variant = ''interval'', timeoutInMil = Some 1000, intervalInMil = None\<rparr>"

definition observerStrategy :: strategy where
  "observerStrategy = Descriptor \<lparr>variant = ''observer'', timeoutInMil = Some 1000, intervalInMil = None\<rparr>"

definition emptyStart :: state where
  "emptyStart = fresh emptyPage exampleMatches"

definition pollCall :: "async \<times> state" where
  "pollCall = select ''#test'' 0 intervalStrategy emptyStart"

definition observerCall :: "async \<times> state" where
  "observerCall = select ''#test'' 0 observerStrategy emptyStart"

definition removalPollCall :: "async \<times> state" where
  "removalPollCall = waitForRemovalFromDom 1 intervalStrategy emptyStart"

definition removalObserverCall :: "async \<times> state" where
  "removalObserverCall = waitForRemovalFromDom 1 observerStrategy emptyStart"

section \<open>Lemmas about the callbacks and the event loop\<close>

lemma isMatch_logged [simp]: "isMatch (logged as s) = isMatch s"
  by (simp add: isMatch_def logged_def fun_eq_iff)

lemma logged_logged [simp]: "logged bs (logged as s) = logged (as @ bs) s"
  by (simp add: logged_def)

lemma logged_Nil [simp]: "logged [] s = s"
  by (simp add: logged_def)

lemma cleanupFunction_logged [simp]: "cleanupFunction (logged as s) = cleanupFunction s"
  by (simp add: logged_def)

lemma isSearchedElement_hit:
  "cleanupFunction s = Some c \<Longrightarrow> isMatch s selector n \<Longrightarrow>
   isSearchedElement selector n s
     = Inr (True, resolve (VNode n) (runCleanup c (logged [Inspected n, CleanupRun] s)))"
  by (simp add: isSearchedElement_def isMatch_def callCleanup_def logged_def Let_def)

lemma isSearchedElement_miss:
  "\<not> isMatch s selector n \<Longrightarrow>
   isSearchedElement selector n s = Inr (False, logged [Inspected n] s)"
  by (auto simp add: isSearchedElement_def isMatch_def logged_def Let_def)

lemma scanned_Nil [simp]: "scanned selector c [] s = (False, s)"
  by (simp add: scanned_def)

lemma scanned_Cons_hit:
  "isMatch s selector n \<Longrightarrow>
   scanned selector c (n # ns) s
     = (True, resolve (VNode n) (runCleanup c (logged [Inspected n, CleanupRun] s)))"
  by (simp add: scanned_def)

lemma scanned_Cons_miss:
  "\<not> isMatch s selector n \<Longrightarrow>
   scanned selector c (n # ns) s = scanned selector c ns (logged [Inspected n] s)"
  by (simp add: scanned_def split: option.splits)

lemma scanned_append:
  "scanned selector c (ns @ ms) s =
     (if fst (scanned selector c ns s) then scanned selector c ns s
      else scanned selector c ms (snd (scanned selector c ns s)))"
proof (induction ns arbitrary: s)
  case Nil
  then show ?case by simp
next
  case (Cons n ns)
  show ?case
  proof (cases "isMatch s selector n")
    case True
    then show ?thesis by (simp add: scanned_Cons_hit)
  next
    case False
    then show ?thesis using Cons.IH [of "logged [Inspected n] s"]
      by (simp add: scanned_Cons_miss)
  qed
qed

lemma cleanupFunction_scanned_miss:
  "\<not> fst (scanned selector c ns s) \<Longrightarrow> cleanupFunction (snd (scanned selector c ns s)) = cleanupFunction s"
  by (simp add: scanned_def split: option.splits)

lemma addedNodesLoop_scanned:
  "cleanupFunction s = Some c \<Longrightarrow> addedNodesLoop selector ns s = Inr (scanned selector c ns s)"
proof (induction ns arbitrary: s)
  case Nil
  then show ?case by simp
next
  case (Cons n ns)
  show ?case
  proof (cases "isMatch s selector n")
    case True
    with Cons.prems show ?thesis
      by (simp add: isSearchedElement_hit scanned_Cons_hit)
  next
    case False
    with Cons.prems Cons.IH [of "logged [Inspected n] s"] show ?thesis
      by (simp add: isSearchedElement_miss scanned_Cons_miss)
  qed
qed

lemma selectObserverCallback_scanned:
  "cleanupFunction s = Some c \<Longrightarrow>
   selectObserverCallback selector recs s = Inr (snd (scanned selector c (inspectionOrder recs) s))"
proof (induction recs arbitrary: s)
  case Nil
  then show ?case by (simp add: inspectionOrder_def)
next
  case (Cons m recs)
  show ?case
  proof (cases "isMatch s selector (target m)")
    case True
    with Cons.prems show ?thesis
      by (simp add: inspectionOrder_def isSearchedElement_hit scanned_Cons_hit)
  next
    case False
    let ?s1 = "logged [Inspected (target m)] s"
    have c1: "cleanupFunction ?s1 = Some c" using Cons.prems by simp
    obtain b s2 where eq: "scanned selector c (addedNodes m) ?s1 = (b, s2)"
      by (cases "scanned selector c (addedNodes m) ?s1")
    show ?thesis
    proof (cases b)
      case True
      with False c1 eq show ?thesis
        by (simp add: inspectionOrder_def isSearchedElement_miss scanned_Cons_miss
            addedNodesLoop_scanned scanned_append)
    next
      case miss: False
      have c2: "cleanupFunction s2 = Some c"
        using miss c1 eq cleanupFunction_scanned_miss [of selector c "addedNodes m" ?s1] by simp
      from Cons.IH [OF c2] False c1 miss eq show ?thesis
        by (simp add: inspectionOrder_def isSearchedElement_miss scanned_Cons_miss
            addedNodesLoop_scanned scanned_append)
    qed
  qed
qed

lemma runCleanup_frame [simp]:
  "promise (runCleanup c s) = promise s"
  "trace (runCleanup c s) = trace s"
  "heap (runCleanup c s) = heap s"
  "matchesImpl (runCleanup c s) = matchesImpl s"
  "cleanupFunction (runCleanup c s) = cleanupFunction s"
  by (cases c; simp add: clearTimeout_def clearInterval_def disconnect_def)+

lemma runCleanup_covers:
  "covers c s \<Longrightarrow> timers (runCleanup c s) = [] \<and> observers (runCleanup c s) = []"
  by (cases c) (auto simp add: clearTimeout_def clearInterval_def disconnect_def filter_empty_conv)

lemma logged_frame [simp]:
  "promise (logged as s) = promise s"
  "trace (logged as s) = trace s @ as"
  "heap (logged as s) = heap s"
  "matchesImpl (logged as s) = matchesImpl s"
  "timers (logged as s) = timers s"
  "observers (logged as s) = observers s"
  by (simp_all add: logged_def)

lemma covers_logged [simp]: "covers c (logged as s) = covers c s"
  by (cases c) simp_all

lemma control_runCleanup [simp]: "control (runCleanup c s) = control s"
  by (simp add: control_def)

lemma control_logged [simp]: "control (logged as s) = control s @ filter isControl as"
  by (simp add: control_def)

lemma callCleanup_Some:
  "cleanupFunction s = Some c \<Longrightarrow> callCleanup s = Inr (runCleanup c (logged [CleanupRun] s))"
  by (simp add: callCleanup_def logged_def)

lemma armed_logged:
  "armed s \<Longrightarrow> filter isControl as = [] \<Longrightarrow> armed (logged as s)"
  by (auto simp add: armed_def)

lemma finished_resolve:
  "armed s \<Longrightarrow> cleanupFunction s = Some c \<Longrightarrow> filter isControl as = [] \<Longrightarrow>
   finished (resolve v (runCleanup c (logged (as @ [CleanupRun]) s)))
   \<and> promise (resolve v (runCleanup c (logged (as @ [CleanupRun]) s))) = Fulfilled v"
  using runCleanup_covers [of c "logged (as @ [CleanupRun]) s"]
  by (auto simp add: armed_def finished_def resolve_def control_def)

lemma finished_reject:
  "armed s \<Longrightarrow> cleanupFunction s = Some c \<Longrightarrow>
   finished (reject (runCleanup c (logged [CleanupRun] s)))
   \<and> promise (reject (runCleanup c (logged [CleanupRun] s))) = Rejected"
  using runCleanup_covers [of c "logged [CleanupRun] s"]
  by (auto simp add: armed_def finished_def reject_def control_def)

lemma timeoutCallback_armed:
  "armed s \<Longrightarrow> \<exists>s'. timeoutCallback s = Inr s' \<and> finished s' \<and> promise s' = Rejected"
proof -
  assume a: "armed s"
  then obtain c where c: "cleanupFunction s = Some c" by (auto simp add: armed_def)
  from finished_reject [OF a c] c show ?thesis
    by (simp add: timeoutCallback_def callCleanup_Some)
qed

lemma selectIntervalCallback_armed:
  "armed s \<Longrightarrow> \<exists>s'. selectIntervalCallback selector ancestor s = Inr s' \<and>
     (case querySelector s selector (heap s ancestor) of
        None \<Rightarrow> s' = s
      | Some element \<Rightarrow> finished s' \<and> promise s' = Fulfilled (VNode element))"
proof -
  assume a: "armed s"
  then obtain c where c: "cleanupFunction s = Some c" by (auto simp add: armed_def)
  from finished_resolve [OF a c, of "[]"] c show ?thesis
    by (simp add: selectIntervalCallback_def callCleanup_Some split: option.splits)
qed

lemma removalIntervalCallback_armed:
  "armed s \<Longrightarrow> \<exists>s'. removalIntervalCallback element s = Inr s' \<and>
     (if isConnected (heap s element) then s' = s
      else finished s' \<and> promise s' = Fulfilled (VBool True))"
proof -
  assume a: "armed s"
  then obtain c where c: "cleanupFunction s = Some c" by (auto simp add: armed_def)
  from finished_resolve [OF a c, of "[]"] c show ?thesis
    by (simp add: removalIntervalCallback_def callCleanup_Some)
qed

lemma removalObserverCallback_armed:
  "armed s \<Longrightarrow> \<exists>s'. removalObserverCallback element recs s = Inr s' \<and>
     (if isConnected (heap s element) then s' = s
      else finished s' \<and> promise s' = Fulfilled (VBool True))"
proof -
  assume a: "armed s"
  then obtain c where c: "cleanupFunction s = Some c" by (auto simp add: armed_def)
  from finished_resolve [OF a c, of "[]"] c show ?thesis
    by (simp add: removalObserverCallback_def callCleanup_Some)
qed

lemma filter_isControl_Inspected [simp]: "filter isControl (map Inspected ns) = []"
  by (induction ns) simp_all

lemma scanned_armed:
  "armed s \<Longrightarrow> cleanupFunction s = Some c \<Longrightarrow>
   (case find (isMatch s selector) ns of
      None \<Rightarrow> armed (snd (scanned selector c ns s))
    | Some n \<Rightarrow> finished (snd (scanned selector c ns s))
        \<and> promise (snd (scanned selector c ns s)) = Fulfilled (VNode n))"
proof (cases "find (isMatch s selector) ns")
  case None
  assume "armed s"
  with None show ?thesis by (simp add: scanned_def armed_logged)
next
  case (Some n)
  assume a: "armed s" and c: "cleanupFunction s = Some c"
  from finished_resolve [OF a c, of "map Inspected (takeWhile (\<lambda>x. \<not> isMatch s selector x) ns) @ [Inspected n]" "VNode n"]
  show ?thesis using Some by (simp add: scanned_def)
qed

lemma selectObserverCallback_armed:
  "armed s \<Longrightarrow> \<exists>s'. selectObserverCallback selector recs s = Inr s' \<and>
     (case find (isMatch s selector) (inspectionOrder recs) of
        None \<Rightarrow> armed s'
      | Some n \<Rightarrow> finished s' \<and> promise s' = Fulfilled (VNode n))"
proof -
  assume a: "armed s"
  then obtain c where c: "cleanupFunction s = Some c" by (auto simp add: armed_def)
  from scanned_armed [OF a c, of selector "inspectionOrder recs"] show ?thesis
    by (simp add: selectObserverCallback_scanned [OF c])
qed

lemma runCallback_armed:
  "armed s \<Longrightarrow> \<exists>s'. runCallback cb s = Inr s' \<and> (armed s' \<or> finished s')"
proof (cases cb)
  case (SelectPoll selector ancestor)
  assume a: "armed s"
  from selectIntervalCallback_armed [OF a, of selector ancestor] a SelectPoll
  show ?thesis by (auto split: option.splits)
next
  case (RemovalPoll element)
  assume a: "armed s"
  from removalIntervalCallback_armed [OF a, of element] a RemovalPoll
  show ?thesis by (auto split: if_splits)
next
  case TimeoutFired
  assume a: "armed s"
  from timeoutCallback_armed [OF a] TimeoutFired show ?thesis by auto
qed

lemma runObserverCallback_armed:
  "armed s \<Longrightarrow> \<exists>s'. runObserverCallback cb recs s = Inr s' \<and> (armed s' \<or> finished s')"
proof (cases cb)
  case (SelectObserver selector)
  assume a: "armed s"
  from selectObserverCallback_armed [OF a, of selector recs] SelectObserver
  show ?thesis by (auto split: option.splits)
next
  case (RemovalObserver element)
  assume a: "armed s"
  from removalObserverCallback_armed [OF a, of element recs] a RemovalObserver
  show ?thesis by (auto split: if_splits)
qed

lemma armed_clearTimeout: "armed s \<Longrightarrow> armed (clearTimeout h s)"
proof -
  assume a: "armed s"
  then obtain c where c: "cleanupFunction s = Some c" "covers c s" by (auto simp add: armed_def)
  have "covers c (clearTimeout h s)"
    using c(2) by (cases c) (auto simp add: clearTimeout_def)
  with a c(1) show ?thesis by (simp add: armed_def clearTimeout_def control_def)
qed

lemma armed_heap: "armed s \<Longrightarrow> armed (s\<lparr>heap := hp\<rparr>)"
proof -
  assume a: "armed s"
  then obtain c where c: "cleanupFunction s = Some c" "covers c s" by (auto simp add: armed_def)
  have "covers c (s\<lparr>heap := hp\<rparr>)" using c(2) by (cases c) simp_all
  with a c(1) show ?thesis by (simp add: armed_def control_def)
qed

lemma finished_heap: "finished s \<Longrightarrow> finished (s\<lparr>heap := hp\<rparr>)"
  by (simp add: finished_def control_def)

lemma idle_heap: "idle s \<Longrightarrow> idle (s\<lparr>heap := hp\<rparr>)"
  by (simp add: idle_def control_def)

lemma notify_no_observers: "observers s = [] \<Longrightarrow> notify obs recs s = s"
  by (induction obs) simp_all

lemma notify_good: "armed s \<or> finished s \<Longrightarrow> armed (notify obs recs s) \<or> finished (notify obs recs s)"
proof (induction obs arbitrary: s)
  case Nil
  then show ?case by simp
next
  case (Cons ob obs)
  let ?s' = "if map_of (observers s) (fst ob) = None then s
             else report (runObserverCallback (fst (snd ob)) recs s) s"
  have "armed ?s' \<or> finished ?s'"
  proof (cases "armed s")
    case True
    from runObserverCallback_armed [OF True, of "fst (snd ob)" recs] Cons.prems
    show ?thesis by (auto simp add: report_def)
  next
    case False
    with Cons.prems have "finished s" by simp
    then have "observers s = []" by (simp add: finished_def)
    with \<open>finished s\<close> show ?thesis by simp
  qed
  from Cons.IH [OF this] show ?case by simp
qed

lemma deliver_armed: "armed s \<Longrightarrow> armed (deliver e s) \<or> finished (deliver e s)"
proof (cases e)
  case (TimerFires h)
  assume a: "armed s"
  show ?thesis
  proof (cases "map_of (timers s) h")
    case None
    with a TimerFires show ?thesis by simp
  next
    case (Some t)
    let ?s1 = "if repeats t then s else clearTimeout h s"
    have "armed ?s1" using a by (simp add: armed_clearTimeout)
    from runCallback_armed [OF this, of "callback t"] TimerFires Some
    show ?thesis by (auto simp add: report_def Let_def)
  qed
next
  case (Mutation hp recs)
  assume a: "armed s"
  from notify_good [of "s\<lparr>heap := hp\<rparr>" "observers s" recs] armed_heap [OF a, of hp] Mutation
  show ?thesis by (simp add: Let_def armed_heap [OF a])
qed

lemma deliver_finished:
  "finished s \<Longrightarrow> finished (deliver e s) \<and> promise (deliver e s) = promise s"
proof (cases e)
  case (TimerFires h)
  assume "finished s"
  with TimerFires show ?thesis by (simp add: finished_def)
next
  case (Mutation hp recs)
  assume f: "finished s"
  then have "observers s = []" by (simp add: finished_def)
  with Mutation finished_heap [OF f, of hp] show ?thesis by (simp add: Let_def)
qed

lemma deliver_idle: "idle s \<Longrightarrow> idle (deliver e s)"
proof (cases e)
  case (TimerFires h)
  assume "idle s"
  with TimerFires show ?thesis by (simp add: idle_def)
next
  case (Mutation hp recs)
  assume f: "idle s"
  then have "observers s = []" by (simp add: idle_def)
  with Mutation idle_heap [OF f, of hp] show ?thesis by (simp add: Let_def)
qed

lemma run_good: "good s \<Longrightarrow> good (run evs s)"
proof (induction evs arbitrary: s)
  case Nil
  then show ?case by simp
next
  case (Cons e evs)
  from Cons.prems deliver_armed [of s e] deliver_finished [of s e] deliver_idle [of s e]
  have "good (deliver e s)" by (auto simp add: good_def)
  from Cons.IH [OF this] show ?case by simp
qed

lemma run_finished: "finished s \<Longrightarrow> finished (run evs s) \<and> promise (run evs s) = promise s"
proof (induction evs arbitrary: s)
  case Nil
  then show ?case by simp
next
  case (Cons e evs)
  from deliver_finished [OF Cons.prems, of e] Cons.IH [of "deliver e s"]
  show ?case by simp
qed

lemma heap_fresh [simp]: "heap (fresh hp m) = hp"
  by (simp add: fresh_def)

lemma idle_fresh: "idle (fresh hp m)"
  by (simp add: idle_def fresh_def control_def)

lemma selectWithInterval_idle:
  "idle s \<Longrightarrow> fst (selectWithInterval selector ancestor d s) = AwaitTryCatch VNull
     \<and> armed (snd (selectWithInterval selector ancestor d s))"
  by (simp add: idle_def armed_def control_def selectWithInterval_def setInterval_def
      setTimeout_def newPromise_def)

lemma selectOnlyObserver_idle:
  "idle s \<Longrightarrow> fst (selectOnlyObserver selector ancestor d s) = AwaitTryCatch VNull
     \<and> armed (snd (selectOnlyObserver selector ancestor d s))"
  by (simp add: idle_def armed_def control_def selectOnlyObserver_def newMutationObserver_def
      observe_def setTimeout_def newPromise_def)

lemma waitForRemovalFromDomWithInterval_idle:
  "idle s \<Longrightarrow> fst (waitForRemovalFromDomWithInterval element t i s) = AwaitTryCatch (VBool False)
     \<and> armed (snd (waitForRemovalFromDomWithInterval element t i s))"
  by (simp add: idle_def armed_def control_def waitForRemovalFromDomWithInterval_def setInterval_def
      setTimeout_def newPromise_def)

lemma waitForRemovalFromDomWithMutationObserver_idle:
  "idle s \<Longrightarrow> fst (waitForRemovalFromDomWithMutationObserver element t s) = AwaitTryCatch (VBool False)
     \<and> armed (snd (waitForRemovalFromDomWithMutationObserver element t s))"
  by (simp add: idle_def armed_def control_def waitForRemovalFromDomWithMutationObserver_def
      newMutationObserver_def observe_def setTimeout_def newPromise_def)

lemma select_idle:
  assumes "idle s" and "select selector ancestor strategy s = (a, s1)"
  shows "(idle s1 \<and> (\<forall>c. a \<noteq> AwaitTryCatch c)) \<or> (armed s1 \<and> a = AwaitTryCatch VNull)"
proof (cases "querySelector s selector (heap s ancestor)")
  case (Some early)
  with assms show ?thesis by (auto simp add: select_def)
next
  case None
  show ?thesis
  proof (cases "strategyParsed strategy")
    case nul: None
    with None assms show ?thesis by (auto simp add: select_def)
  next
    case (Some d)
    consider "variant d = ''interval''" | "variant d \<noteq> ''interval''" "variant d = ''observer''"
      | "variant d \<noteq> ''interval''" "variant d \<noteq> ''observer''" by blast
    then show ?thesis
    proof cases
      case 1
      with None Some assms(2) have "selectWithInterval selector ancestor d s = (a, s1)"
        by (simp add: select_def)
      with selectWithInterval_idle [OF assms(1), of selector ancestor d] show ?thesis by simp
    next
      case 2
      with None Some assms(2) have "selectOnlyObserver selector ancestor d s = (a, s1)"
        by (simp add: select_def)
      with selectOnlyObserver_idle [OF assms(1), of selector ancestor d] show ?thesis by simp
    next
      case 3
      with None Some assms show ?thesis by (auto simp add: select_def)
    qed
  qed
qed

lemma waitForRemovalFromDom_idle:
  assumes "idle s" and "waitForRemovalFromDom element strategy s = (a, s1)"
  shows "(idle s1 \<and> (\<forall>c. a \<noteq> AwaitTryCatch c)) \<or> (armed s1 \<and> a = AwaitTryCatch (VBool False))"
proof (cases "isConnected (heap s element)")
  case False
  with assms show ?thesis by (auto simp add: waitForRemovalFromDom_def)
next
  case True
  show ?thesis
  proof (cases "strategyParsed strategy")
    case None
    with True assms show ?thesis by (auto simp add: waitForRemovalFromDom_def)
  next
    case (Some d)
    consider "variant d = ''interval''" | "variant d \<noteq> ''interval''" "variant d = ''observer''"
      | "variant d \<noteq> ''interval''" "variant d \<noteq> ''observer''" by blast
    then show ?thesis
    proof cases
      case 1
      with True Some assms(2)
      have "waitForRemovalFromDomWithInterval element (timeoutInMil d) (intervalInMil d) s = (a, s1)"
        by (simp add: waitForRemovalFromDom_def)
      with waitForRemovalFromDomWithInterval_idle [OF assms(1), of element "timeoutInMil d" "intervalInMil d"]
      show ?thesis by simp
    next
      case 2
      with True Some assms(2)
      have "waitForRemovalFromDomWithMutationObserver element (timeoutInMil d) s = (a, s1)"
        by (simp add: waitForRemovalFromDom_def)
      with waitForRemovalFromDomWithMutationObserver_idle [OF assms(1), of element "timeoutInMil d"]
      show ?thesis by simp
    next
      case 3
      with True Some assms show ?thesis by (auto simp add: waitForRemovalFromDom_def)
    qed
  qed
qed

lemma filter_pair_twice:
  "filter Q (filter P (filter Q (filter P xs))) = filter Q (filter P xs)"
  by (induction xs) simp_all

lemma runCleanup_idem: "runCleanup c (runCleanup c s) = runCleanup c s"
proof (cases c)
  case (ClearIntervalAndTimeout i t)
  have "filter (\<lambda>e. fst e \<noteq> t) (filter (\<lambda>e. fst e \<noteq> i) (filter (\<lambda>e. fst e \<noteq> t) (filter (\<lambda>e. fst e \<noteq> i) (timers s))))
        = filter (\<lambda>e. fst e \<noteq> t) (filter (\<lambda>e. fst e \<noteq> i) (timers s))"
    by (rule filter_pair_twice)
  with ClearIntervalAndTimeout show ?thesis
    by (simp add: clearTimeout_def clearInterval_def del: filter_filter)
next
  case (ClearTimeoutAndDisconnect t ob)
  then show ?thesis
    by (simp add: clearTimeout_def disconnect_def)
qed

lemma good_shape:
  "good s \<Longrightarrow>
   (control s = [] \<and> promise s = Pending
      \<or> (\<exists>v. control s = [CleanupRun, ResolveCalled v] \<and> promise s = Fulfilled v)
      \<or> control s = [CleanupRun, RejectCalled] \<and> promise s = Rejected)
   \<and> (promise s \<noteq> Pending \<longrightarrow> timers s = [] \<and> observers s = [])"
  by (auto simp add: good_def armed_def finished_def idle_def)

lemma timeout_fires_armed:
  assumes "armed s" and "map_of (timers s) h = Some t" and "callback t = TimeoutFired"
  shows "finished (deliver (TimerFires h) s) \<and> promise (deliver (TimerFires h) s) = Rejected"
proof -
  let ?s1 = "if repeats t then s else clearTimeout h s"
  have "armed ?s1" using assms(1) by (simp add: armed_clearTimeout)
  from timeoutCallback_armed [OF this] assms(2,3) show ?thesis
    by (auto simp add: report_def Let_def)
qed

lemma select_interval_fresh:
  "querySelector (fresh hp m) selector (hp ancestor) = None \<Longrightarrow>
   select selector ancestor (Descriptor \<lparr>variant = ''interval'', timeoutInMil = t, intervalInMil = i\<rparr>) (fresh hp m)
   = (AwaitTryCatch VNull,
      \<lparr>heap = hp, matchesImpl = m,
        timers = [(0, \<lparr>callback = SelectPoll selector ancestor, delay = orDefault i 50, repeats = True\<rparr>),
                  (1, \<lparr>callback = TimeoutFired, delay = orDefault t 10000, repeats = False\<rparr>)],
        observers = [], nextHandle = 2, cleanupFunction = Some (ClearIntervalAndTimeout 0 1),
        promise = Pending, trace = [], uncaught = []\<rparr>)"
  by (simp add: select_def selectWithInterval_def setInterval_def setTimeout_def newPromise_def
      fresh_def numeral_2_eq_2)

lemma select_observer_fresh:
  "querySelector (fresh hp m) selector (hp ancestor) = None \<Longrightarrow>
   select selector ancestor (Descriptor \<lparr>variant = ''observer'', timeoutInMil = t, intervalInMil = i\<rparr>) (fresh hp m)
   = (AwaitTryCatch VNull,
      \<lparr>heap = hp, matchesImpl = m,
        timers = [(1, \<lparr>callback = TimeoutFired, delay = orDefault t 10000, repeats = False\<rparr>)],
        observers = [(0, SelectObserver selector, ancestor)], nextHandle = 2,
        cleanupFunction = Some (ClearTimeoutAndDisconnect 1 0),
        promise = Pending, trace = [], uncaught = []\<rparr>)"
  by (simp add: select_def selectOnlyObserver_def newMutationObserver_def observe_def setTimeout_def
      newPromise_def fresh_def numeral_2_eq_2)

lemma wait_interval_fresh:
  "isConnected (hp element) \<Longrightarrow>
   waitForRemovalFromDom element (Descriptor \<lparr>variant = ''interval'', timeoutInMil = t, intervalInMil = i\<rparr>) (fresh hp m)
   = (AwaitTryCatch (VBool False),
      \<lparr>heap = hp, matchesImpl = m,
        timers = [(0, \<lparr>callback = RemovalPoll element, delay = orDefault i 50, repeats = True\<rparr>),
                  (1, \<lparr>callback = TimeoutFired, delay = orDefault t 10000, repeats = False\<rparr>)],
        observers = [], nextHandle = 2, cleanupFunction = Some (ClearIntervalAndTimeout 0 1),
        promise = Pending, trace = [], uncaught = []\<rparr>)"
  by (simp add: waitForRemovalFromDom_def waitForRemovalFromDomWithInterval_def setInterval_def
      setTimeout_def newPromise_def fresh_def numeral_2_eq_2)

lemma wait_observer_fresh:
  "isConnected (hp element) \<Longrightarrow>
   waitForRemovalFromDom element (Descriptor \<lparr>variant = ''observer'', timeoutInMil = t, intervalInMil = i\<rparr>) (fresh hp m)
   = (AwaitTryCatch (VBool False),
      \<lparr>heap = hp, matchesImpl = m,
        timers = [(1, \<lparr>callback = TimeoutFired, delay = orDefault t 10000, repeats = False\<rparr>)],
        observers = [(0, RemovalObserver element, document)], nextHandle = 2,
        cleanupFunction = Some (ClearTimeoutAndDisconnect 1 0),
        promise = Pending, trace = [], uncaught = []\<rparr>)"
  by (simp add: waitForRemovalFromDom_def waitForRemovalFromDomWithMutationObserver_def
      newMutationObserver_def observe_def setTimeout_def newPromise_def fresh_def numeral_2_eq_2)

lemma armed_started:
  "covers c \<lparr>heap = hp, matchesImpl = m, timers = ts, observers = obs, nextHandle = k,
      cleanupFunction = Some c, promise = Pending, trace = [], uncaught = []\<rparr> \<Longrightarrow>
   armed \<lparr>heap = hp, matchesImpl = m, timers = ts, observers = obs, nextHandle = k,
      cleanupFunction = Some c, promise = Pending, trace = [], uncaught = []\<rparr>"
  by (simp add: armed_def control_def)

lemma settled_no_throw: "a \<noteq> Threw e \<Longrightarrow> settled a s \<noteq> Some (Throw e)"
  by (cases a) (auto split: promiseState.splits)

lemma run_idle: "idle s \<Longrightarrow> idle (run evs s)"
  by (induction evs arbitrary: s) (simp_all add: deliver_idle)

lemma runCallback_unchanged_or_finished:
  "armed s \<Longrightarrow> \<exists>s'. runCallback cb s = Inr s' \<and> (s' = s \<or> finished s')"
proof (cases cb)
  case (SelectPoll selector ancestor)
  assume a: "armed s"
  from selectIntervalCallback_armed [OF a, of selector ancestor] SelectPoll
  show ?thesis by (auto split: option.splits)
next
  case (RemovalPoll element)
  assume a: "armed s"
  from removalIntervalCallback_armed [OF a, of element] RemovalPoll
  show ?thesis by (auto split: if_splits)
next
  case TimeoutFired
  assume a: "armed s"
  from timeoutCallback_armed [OF a] TimeoutFired show ?thesis by auto
qed

lemma selectObserverCallback_timers:
  assumes "armed s"
  shows "\<exists>s'. selectObserverCallback selector recs s = Inr s' \<and>
           ((armed s' \<and> timers s' = timers s) \<or> finished s')"
proof -
  from assms obtain c where c: "cleanupFunction s = Some c" by (auto simp add: armed_def)
  show ?thesis
  proof (cases "find (isMatch s selector) (inspectionOrder recs)")
    case None
    then have "snd (scanned selector c (inspectionOrder recs) s) = logged (map Inspected (inspectionOrder recs)) s"
      by (simp add: scanned_def)
    with assms show ?thesis
      by (simp add: selectObserverCallback_scanned [OF c] armed_logged)
  next
    case (Some n)
    with scanned_armed [OF assms c, of selector "inspectionOrder recs"] show ?thesis
      by (simp add: selectObserverCallback_scanned [OF c])
  qed
qed

lemma runObserverCallback_timers:
  "armed s \<Longrightarrow> \<exists>s'. runObserverCallback cb recs s = Inr s' \<and>
     ((armed s' \<and> timers s' = timers s) \<or> finished s')"
proof (cases cb)
  case (SelectObserver selector)
  assume a: "armed s"
  from selectObserverCallback_timers [OF a, of selector recs] SelectObserver
  show ?thesis by auto
next
  case (RemovalObserver element)
  assume a: "armed s"
  from removalObserverCallback_armed [OF a, of element recs] a RemovalObserver
  show ?thesis by (auto split: if_splits)
qed

lemma notify_timers:
  "(armed s \<and> timers s = ts) \<or> finished s \<Longrightarrow>
   (armed (notify obs recs s) \<and> timers (notify obs recs s) = ts) \<or> finished (notify obs recs s)"
proof (induction obs arbitrary: s)
  case Nil
  then show ?case by simp
next
  case (Cons ob obs)
  let ?s' = "if map_of (observers s) (fst ob) = None then s
             else report (runObserverCallback (fst (snd ob)) recs s) s"
  have "(armed ?s' \<and> timers ?s' = ts) \<or> finished ?s'"
  proof (cases "armed s")
    case True
    from runObserverCallback_timers [OF True, of "fst (snd ob)" recs] Cons.prems True
    show ?thesis by (auto simp add: report_def finished_def armed_def)
  next
    case False
    with Cons.prems have f: "finished s" by simp
    then have "observers s = []" by (simp add: finished_def)
    with f show ?thesis by simp
  qed
  from Cons.IH [OF this] show ?case by simp
qed

lemma deliver_timers:
  assumes "armed s" and "timeoutsOnly (timers s)"
  shows "(armed (deliver e s) \<and> timers (deliver e s) = timers s) \<or> finished (deliver e s)"
proof (cases e)
  case (TimerFires h)
  show ?thesis
  proof (cases "map_of (timers s) h")
    case None
    with assms TimerFires show ?thesis by simp
  next
    case (Some t)
    show ?thesis
    proof (cases "repeats t")
      case True
      from runCallback_unchanged_or_finished [OF assms(1), of "callback t"] TimerFires Some True assms(1)
      show ?thesis by (auto simp add: report_def)
    next
      case False
      from Some have "(h, t) \<in> set (timers s)" by (rule map_of_SomeD)
      with assms(2) False have cb: "callback t = TimeoutFired"
        by (auto simp add: timeoutsOnly_def)
      from timeout_fires_armed [OF assms(1) Some cb] TimerFires show ?thesis by simp
    qed
  qed
next
  case (Mutation hp recs)
  have "timers (s\<lparr>heap := hp\<rparr>) = timers s" by simp
  with notify_timers [of "s\<lparr>heap := hp\<rparr>" "timers s" "observers s" recs] armed_heap [OF assms(1), of hp] Mutation
  show ?thesis by (auto simp add: Let_def)
qed

lemma run_timers:
  "(armed s \<and> timers s = ts) \<or> finished s \<Longrightarrow> timeoutsOnly ts \<Longrightarrow>
   (armed (run evs s) \<and> timers (run evs s) = ts) \<or> finished (run evs s)"
proof (induction evs arbitrary: s)
  case Nil
  then show ?case by simp
next
  case (Cons e evs)
  have "(armed (deliver e s) \<and> timers (deliver e s) = ts) \<or> finished (deliver e s)"
  proof (cases "finished s")
    case True
    then show ?thesis using deliver_finished [of s e] by simp
  next
    case False
    with Cons.prems have "armed s" "timers s = ts" by auto
    with deliver_timers [of s e] Cons.prems(2) show ?thesis by auto
  qed
  from Cons.IH [OF this Cons.prems(2)] show ?case by simp
qed

lemma timeout_while_waiting:
  assumes "armed s" and "timeoutsOnly (timers s)"
    and "map_of (timers s) h = Some t" and "callback t = TimeoutFired"
    and "promise (run evs s) = Pending"
  shows "map_of (timers (run evs s)) h = Some t
         \<and> promise (run evs' (deliver (TimerFires h) (run evs s))) = Rejected"
proof -
  from run_timers [of s "timers s" evs] assms(1,2)
  have "(armed (run evs s) \<and> timers (run evs s) = timers s) \<or> finished (run evs s)" by simp
  with assms(5) have ar: "armed (run evs s)" and ts: "timers (run evs s) = timers s"
    by (auto simp add: finished_def)
  from ts assms(3) have m: "map_of (timers (run evs s)) h = Some t" by simp
  from timeout_fires_armed [OF ar m assms(4)]
    run_finished [of "deliver (TimerFires h) (run evs s)" evs'] m
  show ?thesis by simp
qed

lemma select_parsed:
  "strategyParsed strategy = Some d \<Longrightarrow>
   select selector ancestor strategy s = select selector ancestor (Descriptor d) s"
  by (simp add: select_def split: option.splits)

lemma waitForRemovalFromDom_parsed:
  "strategyParsed strategy = Some d \<Longrightarrow>
   waitForRemovalFromDom element strategy s = waitForRemovalFromDom element (Descriptor d) s"
  by (simp add: waitForRemovalFromDom_def split: option.splits)

lemma select_waits:
  assumes "querySelector (fresh hp m) selector (hp ancestor) = None"
    and "strategyParsed strategy = Some d"
    and "variant d = ''interval'' \<or> variant d = ''observer''"
    and "select selector ancestor strategy (fresh hp m) = (a, s1)"
  shows "a = AwaitTryCatch VNull \<and> armed s1 \<and> timeoutsOnly (timers s1)
         \<and> map_of (timers s1) 1 = Some \<lparr>callback = TimeoutFired,
               delay = (case timeoutInMil d of None \<Rightarrow> 10000 | Some x \<Rightarrow> x), repeats = False\<rparr>"
proof -
  obtain v t i where d: "d = \<lparr>variant = v, timeoutInMil = t, intervalInMil = i\<rparr>" by (cases d)
  have dflt: "orDefault t 10000 = (case t of None \<Rightarrow> 10000 | Some x \<Rightarrow> x)" by (cases t) simp_all
  from assms(3) d consider "v = ''interval''" | "v = ''observer''" by auto
  then show ?thesis
  proof cases
    case 1
    from assms(4) select_parsed [OF assms(2)] select_interval_fresh [OF assms(1), of t i] d 1
    have s1: "a = AwaitTryCatch VNull"
      "s1 = \<lparr>heap = hp, matchesImpl = m,
        timers = [(0, \<lparr>callback = SelectPoll selector ancestor, delay = orDefault i 50, repeats = True\<rparr>),
                  (1, \<lparr>callback = TimeoutFired, delay = orDefault t 10000, repeats = False\<rparr>)],
        observers = [], nextHandle = 2, cleanupFunction = Some (ClearIntervalAndTimeout 0 1),
        promise = Pending, trace = [], uncaught = []\<rparr>" by simp_all
    have "armed s1" unfolding s1(2) by (rule armed_started) simp
    with s1 d dflt show ?thesis by (simp add: timeoutsOnly_def)
  next
    case 2
    from assms(4) select_parsed [OF assms(2)] select_observer_fresh [OF assms(1), of t i] d 2
    have s1: "a = AwaitTryCatch VNull"
      "s1 = \<lparr>heap = hp, matchesImpl = m,
        timers = [(1, \<lparr>callback = TimeoutFired, delay = orDefault t 10000, repeats = False\<rparr>)],
        observers = [(0, SelectObserver selector, ancestor)], nextHandle = 2,
        cleanupFunction = Some (ClearTimeoutAndDisconnect 1 0),
        promise = Pending, trace = [], uncaught = []\<rparr>" by simp_all
    have "armed s1" unfolding s1(2) by (rule armed_started) simp
    with s1 d dflt show ?thesis by (simp add: timeoutsOnly_def)
  qed
qed

lemma waitForRemovalFromDom_waits:
  assumes "isConnected (hp element)"
    and "strategyParsed strategy = Some d"
    and "variant d = ''interval'' \<or> variant d = ''observer''"
    and "waitForRemovalFromDom element strategy (fresh hp m) = (a, s1)"
  shows "a = AwaitTryCatch (VBool False) \<and> armed s1 \<and> timeoutsOnly (timers s1)
         \<and> map_of (timers s1) 1 = Some \<lparr>callback = TimeoutFired,
               delay = (case timeoutInMil d of None \<Rightarrow> 10000 | Some x \<Rightarrow> x), repeats = False\<rparr>"
proof -
  obtain v t i where d: "d = \<lparr>variant = v, timeoutInMil = t, intervalInMil = i\<rparr>" by (cases d)
  have dflt: "orDefault t 10000 = (case t of None \<Rightarrow> 10000 | Some x \<Rightarrow> x)" by (cases t) simp_all
  from assms(3) d consider "v = ''interval''" | "v = ''observer''" by auto
  then show ?thesis
  proof cases
    case 1
    from assms(4) waitForRemovalFromDom_parsed [OF assms(2)]
      wait_interval_fresh [of hp element t i m, OF assms(1)] d 1
    have s1: "a = AwaitTryCatch (VBool False)"
      "s1 = \<lparr>heap = hp, matchesImpl = m,
        timers = [(0, \<lparr>callback = RemovalPoll element, delay = orDefault i 50, repeats = True\<rparr>),
                  (1, \<lparr>callback = TimeoutFired, delay = orDefault t 10000, repeats = False\<rparr>)],
        observers = [], nextHandle = 2, cleanupFunction = Some (ClearIntervalAndTimeout 0 1),
        promise = Pending, trace = [], uncaught = []\<rparr>" by simp_all
    have "armed s1" unfolding s1(2) by (rule armed_started) simp
    with s1 d dflt show ?thesis by (simp add: timeoutsOnly_def)
  next
    case 2
    from assms(4) waitForRemovalFromDom_parsed [OF assms(2)]
      wait_observer_fresh [of hp element t i m, OF assms(1)] d 2
    have s1: "a = AwaitTryCatch (VBool False)"
      "s1 = \<lparr>heap = hp, matchesImpl = m,
        timers = [(1, \<lparr>callback = TimeoutFired, delay = orDefault t 10000, repeats = False\<rparr>)],
        observers = [(0, RemovalObserver element, document)], nextHandle = 2,
        cleanupFunction = Some (ClearTimeoutAndDisconnect 1 0),
        promise = Pending, trace = [], uncaught = []\<rparr>" by simp_all
    have "armed s1" unfolding s1(2) by (rule armed_started) simp
    with s1 d dflt show ?thesis by (simp add: timeoutsOnly_def)
  qed
qed


section \<open>Evaluation of the example calls\<close>

lemmas stepping =
  Let_def querySelector_def descendants_def selectIntervalCallback_def removalIntervalCallback_def
  removalObserverCallback_def timeoutCallback_def isSearchedElement_def callCleanup_def
  report_def resolve_def reject_def clearTimeout_def clearInterval_def disconnect_def

lemmas examples =
  exampleMatches_def testDiv_def otherTest_def wrapper_def emptyPage_def pageWithTest_def
  nestedPage_def appendBatch_def nestedBatch_def twoRecordBatch_def

lemma emptyPage_query:
  "querySelector (fresh emptyPage exampleMatches) ''#test'' (emptyPage 0) = None"
  by (simp add: querySelector_def descendants_def fresh_def examples)

lemma pageWithTest_query:
  "querySelector (fresh pageWithTest exampleMatches) ''#test'' (pageWithTest 0) = Some testDiv"
  by (simp add: querySelector_def descendants_def fresh_def examples)

lemma emptyPage_connected: "isConnected (emptyPage 1)"
  by (simp add: emptyPage_def)

lemma pollCall_eq:
  "pollCall = (AwaitTryCatch VNull,
      \<lparr>heap = emptyPage, matchesImpl = exampleMatches,
        timers = [(0, \<lparr>callback = SelectPoll ''#test'' 0, delay = 50, repeats = True\<rparr>),
                  (1, \<lparr>callback = TimeoutFired, delay = 1000, repeats = False\<rparr>)],
        observers = [], nextHandle = 2, cleanupFunction = Some (ClearIntervalAndTimeout 0 1),
        promise = Pending, trace = [], uncaught = []\<rparr>)"
  using select_interval_fresh [OF emptyPage_query, of "Some 1000" None]
  by (simp add: pollCall_def intervalStrategy_def emptyStart_def)

lemma observerCall_eq:
  "observerCall = (AwaitTryCatch VNull,
      \<lparr>heap = emptyPage, matchesImpl = exampleMatches,
        timers = [(1, \<lparr>callback = TimeoutFired, delay = 1000, repeats = False\<rparr>)],
        observers = [(0, SelectObserver ''#test'', 0)], nextHandle = 2,
        cleanupFunction = Some (ClearTimeoutAndDisconnect 1 0),
        promise = Pending, trace = [], uncaught = []\<rparr>)"
  using select_observer_fresh [OF emptyPage_query, of "Some 1000" None]
  by (simp add: observerCall_def observerStrategy_def emptyStart_def)

lemma removalPollCall_eq:
  "removalPollCall = (AwaitTryCatch (VBool False),
      \<lparr>heap = emptyPage, matchesImpl = exampleMatches,
        timers = [(0, \<lparr>callback = RemovalPoll 1, delay = 50, repeats = True\<rparr>),
                  (1, \<lparr>callback = TimeoutFired, delay = 1000, repeats = False\<rparr>)],
        observers = [], nextHandle = 2, cleanupFunction = Some (ClearIntervalAndTimeout 0 1),
        promise = Pending, trace = [], uncaught = []\<rparr>)"
  using wait_interval_fresh [of emptyPage 1 "Some 1000" None exampleMatches, OF emptyPage_connected]
  by (simp add: removalPollCall_def intervalStrategy_def emptyStart_def)

lemma removalObserverCall_eq:
  "removalObserverCall = (AwaitTryCatch (VBool False),
      \<lparr>heap = emptyPage, matchesImpl = exampleMatches,
        timers = [(1, \<lparr>callback = TimeoutFired, delay = 1000, repeats = False\<rparr>)],
        observers = [(0, RemovalObserver 1, document)], nextHandle = 2,
        cleanupFunction = Some (ClearTimeoutAndDisconnect 1 0),
        promise = Pending, trace = [], uncaught = []\<rparr>)"
  using wait_observer_fresh [of emptyPage 1 "Some 1000" None exampleMatches, OF emptyPage_connected]
  by (simp add: removalObserverCall_def observerStrategy_def emptyStart_def)

section \<open>Exactly one resolution, after cleanup\<close>

text \<open>
  Claim C1. For every call of \<open>select\<close> or \<open>waitForRemovalFromDom\<close>, with either strategy and
  whatever the host does afterwards (any sequence of timer firings and DOM mutations), at
  most one result is produced: the log of the call holds no cleanup, resolve or reject at
  all, or exactly one run of the cleanup function followed by exactly one call of resolve
  or of reject, in this order. Once the promise has settled no timer is active and no
  observer is registered, so the losing path cannot run any more. Running the cleanup
  function a second time changes nothing.
\<close>

theorem one_resolution_after_cleanup:
  assumes "select selector ancestor strategy (fresh hp m) = (a, s1)
           \<or> waitForRemovalFromDom element strategy (fresh hp m) = (a, s1)"
  shows "(control (run evs s1) = [] \<and> promise (run evs s1) = Pending
          \<or> (\<exists>v. control (run evs s1) = [CleanupRun, ResolveCalled v] \<and> promise (run evs s1) = Fulfilled v)
          \<or> control (run evs s1) = [CleanupRun, RejectCalled] \<and> promise (run evs s1) = Rejected)
         \<and> (promise (run evs s1) \<noteq> Pending \<longrightarrow> timers (run evs s1) = [] \<and> observers (run evs s1) = [])
         \<and> runCleanup c (runCleanup c s') = runCleanup c s'"
proof -
  have "good s1"
    using assms select_idle [OF idle_fresh, of selector ancestor strategy hp m a s1]
      waitForRemovalFromDom_idle [OF idle_fresh, of element strategy hp m a s1]
    by (auto simp add: good_def)
  then have "good (run evs s1)" by (rule run_good)
  from good_shape [OF this] runCleanup_idem [of c s'] show ?thesis by blast
qed

text \<open>
  The polling call on the page without the element: the element appears, the interval
  fires and finds it, then the timeout and the interval are due once more.
\<close>

theorem one_resolution_after_cleanup_witness:
  "select ''#test'' 0 intervalStrategy (fresh emptyPage exampleMatches) = (fst pollCall, snd pollCall)
   \<and> control (run [Mutation pageWithTest appendBatch, TimerFires 0, TimerFires 1, TimerFires 0] (snd pollCall))
       = [CleanupRun, ResolveCalled (VNode testDiv)]
   \<and> promise (run [Mutation pageWithTest appendBatch, TimerFires 0, TimerFires 1, TimerFires 0] (snd pollCall))
       = Fulfilled (VNode testDiv)
   \<and> timers (run [Mutation pageWithTest appendBatch, TimerFires 0, TimerFires 1, TimerFires 0] (snd pollCall)) = []
   \<and> observers (run [Mutation pageWithTest appendBatch, TimerFires 0, TimerFires 1, TimerFires 0] (snd pollCall)) = []"
proof -
  let ?evs = "[Mutation pageWithTest appendBatch, TimerFires 0, TimerFires 1, TimerFires 0]"
  have h: "select ''#test'' 0 intervalStrategy (fresh emptyPage exampleMatches) = (fst pollCall, snd pollCall)"
    by (simp add: pollCall_def emptyStart_def)
  have p: "promise (run ?evs (snd pollCall)) = Fulfilled (VNode testDiv)"
    by (simp add: pollCall_eq stepping examples)
  from one_resolution_after_cleanup [OF disjI1 [OF h], of ?evs] h p show ?thesis by auto
qed

section \<open>The observer inspects targets and added nodes only\<close>

text \<open>
  Claim C2. In the observer strategy of \<open>select\<close>, on each batch both the directly changed
  node and every newly inserted descendant, at any depth under an added node, are
  inspected, and the promise resolves with the first matching element.

  The code does not do this. The callback inspects \<open>mutation.target\<close> and the members of
  \<open>mutation.addedNodes\<close>, never their descendants. On the page where a wrapper that
  contains the \<open>#test\<close> element is appended, \<open>querySelector\<close> finds the element and the
  polling strategy resolves with it, while the observer strategy inspects the body and the
  wrapper, stays pending and resolves with \<open>null\<close> at the timeout.
\<close>

theorem nested_insertion_missed_by_observer:
  "querySelector (fresh nestedPage exampleMatches) ''#test'' (nestedPage 0) = Some testDiv
   \<and> trace (run [Mutation nestedPage nestedBatch] (snd observerCall))
       = [Inspected (nestedPage 0), Inspected wrapper]
   \<and> settled (fst observerCall) (run [Mutation nestedPage nestedBatch] (snd observerCall)) = None
   \<and> settled (fst observerCall) (run [Mutation nestedPage nestedBatch, TimerFires 1] (snd observerCall))
       = Some (Return VNull)
   \<and> settled (fst pollCall) (run [Mutation nestedPage nestedBatch, TimerFires 0] (snd pollCall))
       = Some (Return (VNode testDiv))"
  by (simp add: observerCall_eq pollCall_eq fresh_def stepping examples)

section \<open>The early exit\<close>

text \<open>
  Claim C3. When the condition already holds at call time (\<open>querySelector\<close> finds a node
  under the root, or the element is not connected), the call returns the result (the node,
  or \<open>true\<close>) at once, whatever the strategy argument is, and leaves the host as it was: no
  timer, interval or observer is created.
\<close>

theorem early_exit_arms_nothing:
  "(querySelector s selector (heap s ancestor) = Some early \<longrightarrow>
      select selector ancestor strategy s = (Returned (VNode early), s))
   \<and> (\<not> isConnected (heap s element) \<longrightarrow>
      waitForRemovalFromDom element strategy s = (Returned (VBool True), s))"
  by (simp add: select_def waitForRemovalFromDom_def)

theorem early_exit_arms_nothing_witness:
  "querySelector (fresh pageWithTest exampleMatches) ''#test'' (heap (fresh pageWithTest exampleMatches) 0) = Some testDiv
   \<and> select ''#test'' 0 observerStrategy (fresh pageWithTest exampleMatches)
       = (Returned (VNode testDiv), fresh pageWithTest exampleMatches)
   \<and> \<not> isConnected (heap (fresh pageWithTest exampleMatches) 1)
   \<and> waitForRemovalFromDom 1 (Number 1000) (fresh pageWithTest exampleMatches)
       = (Returned (VBool True), fresh pageWithTest exampleMatches)"
proof -
  have a: "querySelector (fresh pageWithTest exampleMatches) ''#test'' (heap (fresh pageWithTest exampleMatches) 0) = Some testDiv"
    using pageWithTest_query by simp
  have b: "\<not> isConnected (heap (fresh pageWithTest exampleMatches) 1)"
    by (simp add: pageWithTest_def)
  from early_exit_arms_nothing [of "fresh pageWithTest exampleMatches" "''#test''" 0 testDiv _ 1] a b
  show ?thesis by blast
qed

section \<open>A timeout is the not-found value, never a rejection\<close>

text \<open>
  Claim C4. A call that has to wait (no early exit, strategy a number, left out, or a
  descriptor of the interval or the observer variant) keeps its timeout timer, handle 1
  with the given or the default delay, active for as long as it is pending, whatever the
  host does meanwhile, and the caller has observed nothing yet. When that timer fires the
  caller receives a normally resolved value, \<open>null\<close> from \<open>select\<close> and \<open>false\<close> from
  \<open>waitForRemovalFromDom\<close>, in every strategy implementation: the rejection of the inner
  promise is caught. Nothing the host does later changes that value, and at no moment does
  the caller observe a rejection (the strategy argument being a number, an object or left
  out).
\<close>

theorem timeout_gives_not_found_value:
  "(querySelector (fresh hp m) selector (hp ancestor) = None \<longrightarrow>
      strategyParsed strategy = Some d \<longrightarrow>
      (variant d = ''interval'' \<or> variant d = ''observer'') \<longrightarrow>
      select selector ancestor strategy (fresh hp m) = (a, s1) \<longrightarrow>
      promise (run evs s1) = Pending \<longrightarrow>
        settled a (run evs s1) = None
        \<and> map_of (timers (run evs s1)) 1
            = Some \<lparr>callback = TimeoutFired,
                     delay = (case timeoutInMil d of None \<Rightarrow> 10000 | Some x \<Rightarrow> x), repeats = False\<rparr>
        \<and> settled a (run evs' (deliver (TimerFires 1) (run evs s1))) = Some (Return VNull))
   \<and> (isConnected (hp element) \<longrightarrow>
      strategyParsed strategy' = Some d' \<longrightarrow>
      (variant d' = ''interval'' \<or> variant d' = ''observer'') \<longrightarrow>
      waitForRemovalFromDom element strategy' (fresh hp m) = (b, s2) \<longrightarrow>
      promise (run evs s2) = Pending \<longrightarrow>
        settled b (run evs s2) = None
        \<and> map_of (timers (run evs s2)) 1
            = Some \<lparr>callback = TimeoutFired,
                     delay = (case timeoutInMil d' of None \<Rightarrow> 10000 | Some x \<Rightarrow> x), repeats = False\<rparr>
        \<and> settled b (run evs' (deliver (TimerFires 1) (run evs s2))) = Some (Return (VBool False)))
   \<and> (select selector ancestor strategy (fresh hp m) = (a, s1) \<longrightarrow> strategy \<noteq> NullValue \<longrightarrow>
      settled a (run evs s1) \<noteq> Some (Throw e))
   \<and> (waitForRemovalFromDom element strategy' (fresh hp m) = (b, s2) \<longrightarrow> strategy' \<noteq> NullValue \<longrightarrow>
      settled b (run evs s2) \<noteq> Some (Throw e))"
proof (intro conjI impI)
  assume q: "querySelector (fresh hp m) selector (hp ancestor) = None"
    and p: "strategyParsed strategy = Some d"
    and v: "variant d = ''interval'' \<or> variant d = ''observer''"
    and c: "select selector ancestor strategy (fresh hp m) = (a, s1)"
    and w: "promise (run evs s1) = Pending"
  note st = select_waits [OF q p v c]
  let ?t = "\<lparr>callback = TimeoutFired,
                     delay = (case timeoutInMil d of None \<Rightarrow> 10000 | Some x \<Rightarrow> x), repeats = False\<rparr>"
  have cb: "callback ?t = TimeoutFired" by simp
  from st have ar: "armed s1" and ok: "timeoutsOnly (timers s1)"
    and mp: "map_of (timers s1) 1 = Some ?t" by blast+
  from timeout_while_waiting [OF ar ok mp cb w, of evs']
  have t: "map_of (timers (run evs s1)) 1
            = Some \<lparr>callback = TimeoutFired,
                     delay = (case timeoutInMil d of None \<Rightarrow> 10000 | Some x \<Rightarrow> x), repeats = False\<rparr>"
    and r: "promise (run evs' (deliver (TimerFires 1) (run evs s1))) = Rejected"
    by blast+
  from st w show "settled a (run evs s1) = None" by simp
  from t show "map_of (timers (run evs s1)) 1
            = Some \<lparr>callback = TimeoutFired,
                     delay = (case timeoutInMil d of None \<Rightarrow> 10000 | Some x \<Rightarrow> x), repeats = False\<rparr>" .
  from st r show "settled a (run evs' (deliver (TimerFires 1) (run evs s1))) = Some (Return VNull)"
    by simp
next
  assume q: "isConnected (hp element)"
    and p: "strategyParsed strategy' = Some d'"
    and v: "variant d' = ''interval'' \<or> variant d' = ''observer''"
    and c: "waitForRemovalFromDom element strategy' (fresh hp m) = (b, s2)"
    and w: "promise (run evs s2) = Pending"
  note st = waitForRemovalFromDom_waits [OF q p v c]
  let ?t = "\<lparr>callback = TimeoutFired,
                     delay = (case timeoutInMil d' of None \<Rightarrow> 10000 | Some x \<Rightarrow> x), repeats = False\<rparr>"
  have cb: "callback ?t = TimeoutFired" by simp
  from st have ar: "armed s2" and ok: "timeoutsOnly (timers s2)"
    and mp: "map_of (timers s2) 1 = Some ?t" by blast+
  from timeout_while_waiting [OF ar ok mp cb w, of evs']
  have t: "map_of (timers (run evs s2)) 1
            = Some \<lparr>callback = TimeoutFired,
                     delay = (case timeoutInMil d' of None \<Rightarrow> 10000 | Some x \<Rightarrow> x), repeats = False\<rparr>"
    and r: "promise (run evs' (deliver (TimerFires 1) (run evs s2))) = Rejected"
    by blast+
  from st w show "settled b (run evs s2) = None" by simp
  from t show "map_of (timers (run evs s2)) 1
            = Some \<lparr>callback = TimeoutFired,
                     delay = (case timeoutInMil d' of None \<Rightarrow> 10000 | Some x \<Rightarrow> x), repeats = False\<rparr>" .
  from st r show "settled b (run evs' (deliver (TimerFires 1) (run evs s2))) = Some (Return (VBool False))"
    by simp
next
  assume "select selector ancestor strategy (fresh hp m) = (a, s1)" and "strategy \<noteq> NullValue"
  then have "a \<noteq> Threw e"
    by (cases strategy)
       (auto simp add: select_def selectWithInterval_def selectOnlyObserver_def Let_def
          split: option.splits if_splits prod.splits)
  then show "settled a (run evs s1) \<noteq> Some (Throw e)" by (rule settled_no_throw)
next
  assume "waitForRemovalFromDom element strategy' (fresh hp m) = (b, s2)" and "strategy' \<noteq> NullValue"
  then have "b \<noteq> Threw e"
    by (cases strategy')
       (auto simp add: waitForRemovalFromDom_def waitForRemovalFromDomWithInterval_def
          waitForRemovalFromDomWithMutationObserver_def Let_def
          split: option.splits if_splits prod.splits)
  then show "settled b (run evs s2) \<noteq> Some (Throw e)" by (rule settled_no_throw)
qed

text \<open>
  The four implementations. The observing \<open>select\<close> and the polling
  \<open>waitForRemovalFromDom\<close>, timeout 1000: a wrapper is appended and the interval is due,
  neither call is done, the timeout fires, and later the element appears and the interval
  is due again. The polling \<open>select\<close> and the observing \<open>waitForRemovalFromDom\<close>: the
  interval is due and finds nothing, the timeout fires, then the same later events.
\<close>

theorem timeout_gives_not_found_value_witness:
  "promise (run [Mutation nestedPage nestedBatch, TimerFires 0] (snd observerCall)) = Pending
   \<and> map_of (timers (run [Mutation nestedPage nestedBatch, TimerFires 0] (snd observerCall))) 1
       = Some \<lparr>callback = TimeoutFired, delay = 1000, repeats = False\<rparr>
   \<and> settled (fst observerCall)
        (run [Mutation pageWithTest appendBatch, TimerFires 0]
           (deliver (TimerFires 1) (run [Mutation nestedPage nestedBatch, TimerFires 0] (snd observerCall))))
       = Some (Return VNull)
   \<and> promise (run [Mutation nestedPage nestedBatch, TimerFires 0] (snd removalPollCall)) = Pending
   \<and> map_of (timers (run [Mutation nestedPage nestedBatch, TimerFires 0] (snd removalPollCall))) 1
       = Some \<lparr>callback = TimeoutFired, delay = 1000, repeats = False\<rparr>
   \<and> settled (fst removalPollCall)
        (run [Mutation pageWithTest appendBatch, TimerFires 0]
           (deliver (TimerFires 1) (run [Mutation nestedPage nestedBatch, TimerFires 0] (snd removalPollCall))))
       = Some (Return (VBool False))
   \<and> promise (run [TimerFires 0] (snd pollCall)) = Pending
   \<and> settled (fst pollCall)
        (run [Mutation pageWithTest appendBatch, TimerFires 0]
           (deliver (TimerFires 1) (run [TimerFires 0] (snd pollCall))))
       = Some (Return VNull)
   \<and> promise (run [TimerFires 0] (snd removalObserverCall)) = Pending
   \<and> settled (fst removalObserverCall)
        (run [Mutation pageWithTest appendBatch, TimerFires 0]
           (deliver (TimerFires 1) (run [TimerFires 0] (snd removalObserverCall))))
       = Some (Return (VBool False))
   \<and> settled (fst observerCall) (run [TimerFires 0] (snd observerCall)) \<noteq> Some (Throw TypeError)
   \<and> settled (fst removalPollCall) (run [TimerFires 0] (snd removalPollCall)) \<noteq> Some (Throw TypeError)"
proof -
  let ?di = "\<lparr>variant = ''interval'', timeoutInMil = Some 1000, intervalInMil = None\<rparr>"
  let ?do = "\<lparr>variant = ''observer'', timeoutInMil = Some 1000, intervalInMil = None\<rparr>"
  let ?evs = "[Mutation nestedPage nestedBatch, TimerFires 0]"
  let ?evs' = "[Mutation pageWithTest appendBatch, TimerFires 0]"
  have pi: "strategyParsed intervalStrategy = Some ?di" "variant ?di = ''interval'' \<or> variant ?di = ''observer''"
    "intervalStrategy \<noteq> NullValue"
    by (simp_all add: intervalStrategy_def)
  have po: "strategyParsed observerStrategy = Some ?do" "variant ?do = ''interval'' \<or> variant ?do = ''observer''"
    "observerStrategy \<noteq> NullValue"
    by (simp_all add: observerStrategy_def)
  have c1: "select ''#test'' 0 intervalStrategy (fresh emptyPage exampleMatches) = (fst pollCall, snd pollCall)"
    by (simp add: pollCall_def emptyStart_def)
  have c2: "select ''#test'' 0 observerStrategy (fresh emptyPage exampleMatches) = (fst observerCall, snd observerCall)"
    by (simp add: observerCall_def emptyStart_def)
  have c3: "waitForRemovalFromDom 1 intervalStrategy (fresh emptyPage exampleMatches)
              = (fst removalPollCall, snd removalPollCall)"
    by (simp add: removalPollCall_def emptyStart_def)
  have c4: "waitForRemovalFromDom 1 observerStrategy (fresh emptyPage exampleMatches)
              = (fst removalObserverCall, snd removalObserverCall)"
    by (simp add: removalObserverCall_def emptyStart_def)
  have p2: "promise (run ?evs (snd observerCall)) = Pending"
    by (simp add: observerCall_eq stepping examples)
  have p3: "promise (run ?evs (snd removalPollCall)) = Pending"
    by (simp add: removalPollCall_eq stepping examples)
  have p1: "promise (run [TimerFires 0] (snd pollCall)) = Pending"
    by (simp add: pollCall_eq stepping examples)
  have p4: "promise (run [TimerFires 0] (snd removalObserverCall)) = Pending"
    by (simp add: removalObserverCall_eq)
  note cited = timeout_gives_not_found_value [of emptyPage exampleMatches "''#test''" 0 observerStrategy ?do
      "fst observerCall" "snd observerCall" ?evs ?evs'
      1 intervalStrategy ?di "fst removalPollCall" "snd removalPollCall" TypeError]
  note others = timeout_gives_not_found_value [of emptyPage exampleMatches "''#test''" 0 intervalStrategy ?di
      "fst pollCall" "snd pollCall" "[TimerFires 0]" ?evs'
      1 observerStrategy ?do "fst removalObserverCall" "snd removalObserverCall" TypeError]
  note never = timeout_gives_not_found_value [of emptyPage exampleMatches "''#test''" 0 observerStrategy ?do
      "fst observerCall" "snd observerCall" "[TimerFires 0]" ?evs'
      1 intervalStrategy ?di "fst removalPollCall" "snd removalPollCall" TypeError]
  have dl: "(case timeoutInMil ?di of None \<Rightarrow> 10000 | Some x \<Rightarrow> x) = (1000::int)"
    "(case timeoutInMil ?do of None \<Rightarrow> 10000 | Some x \<Rightarrow> x) = (1000::int)"
    by simp_all
  from cited [unfolded dl] others [unfolded dl] never
    emptyPage_query emptyPage_connected pi po c1 c2 c3 c4 p1 p2 p3 p4
  show ?thesis by blast
qed

section \<open>A detection at the moment of construction\<close>




section \<open>Order of inspection inside one batch\<close>

text \<open>
  Claim C6. In the observer strategy of \<open>select\<close>, within one batch the target of each
  record is checked before that record's added nodes, the first node that matches wins,
  and nothing after it is processed: the callback inspects exactly the nodes of the batch,
  in inspection order, up to and including the first match, runs the cleanup and resolves
  with that node; without a match it inspects them all and changes nothing else.
\<close>

theorem batch_order_first_match_wins:
  assumes "cleanupFunction s = Some c"
  shows "selectObserverCallback selector recs s =
     (case find (isMatch s selector) (inspectionOrder recs) of
        None \<Rightarrow> Inr (logged (map Inspected (inspectionOrder recs)) s)
      | Some n \<Rightarrow>
          Inr (resolve (VNode n) (runCleanup c
            (logged (map Inspected (takeWhile (\<lambda>x. \<not> isMatch s selector x) (inspectionOrder recs))
                     @ [Inspected n, CleanupRun]) s))))"
  using selectObserverCallback_scanned [OF assms, of selector recs]
  by (simp add: scanned_def split: option.splits)

text \<open>
  A batch of two records: the first target does not match, its added nodes are a text
  node and two matching elements; the second record's target matches too.
\<close>

theorem batch_order_first_match_wins_witness:
  "cleanupFunction (snd observerCall) = Some (ClearTimeoutAndDisconnect 1 0)
   \<and> selectObserverCallback ''#test'' twoRecordBatch (snd observerCall)
       = Inr (resolve (VNode testDiv) (runCleanup (ClearTimeoutAndDisconnect 1 0)
           (logged [Inspected (pageWithTest 0), Inspected (Text True ''x''), Inspected testDiv, CleanupRun]
              (snd observerCall))))"
proof -
  have h: "cleanupFunction (snd observerCall) = Some (ClearTimeoutAndDisconnect 1 0)"
    by (simp add: observerCall_eq)
  have m: "matchesImpl (snd observerCall) = exampleMatches"
    by (simp add: observerCall_eq)
  from batch_order_first_match_wins [OF h, of "''#test''" twoRecordBatch] h show ?thesis
    by (simp add: m isMatch_def inspectionOrder_def examples)
qed

section \<open>The strategy argument\<close>

text \<open>
  Claim C7. For every selector, root, element and number N, a call with the bare number N
  as strategy is the same as the call with the descriptor
  \<open>{variant: "interval", timeoutInMil: N}\<close>: the interval strategy with timeout N and the
  default poll interval of 50.
\<close>

theorem number_is_interval_descriptor:
  "select selector ancestor (Number N) s
     = select selector ancestor (Descriptor \<lparr>variant = ''interval'', timeoutInMil = Some N, intervalInMil = None\<rparr>) s
   \<and> waitForRemovalFromDom element (Number N) s
     = waitForRemovalFromDom element (Descriptor \<lparr>variant = ''interval'', timeoutInMil = Some N, intervalInMil = None\<rparr>) s
   \<and> (querySelector s selector (heap s ancestor) = None \<longrightarrow>
        select selector ancestor (Number N) s
          = selectWithInterval selector ancestor \<lparr>variant = ''interval'', timeoutInMil = Some N, intervalInMil = Some 50\<rparr> s)
   \<and> (isConnected (heap s element) \<longrightarrow>
        waitForRemovalFromDom element (Number N) s
          = waitForRemovalFromDomWithInterval element (Some N) (Some 50) s)"
  by (simp add: select_def waitForRemovalFromDom_def selectWithInterval_def
        waitForRemovalFromDomWithInterval_def split: option.splits)

theorem number_is_interval_descriptor_witness:
  "querySelector emptyStart ''#test'' (heap emptyStart 0) = None
   \<and> isConnected (heap emptyStart 1)
   \<and> select ''#test'' 0 (Number 1000) emptyStart = select ''#test'' 0 intervalStrategy emptyStart
   \<and> select ''#test'' 0 (Number 1000) emptyStart
       = selectWithInterval ''#test'' 0 \<lparr>variant = ''interval'', timeoutInMil = Some 1000, intervalInMil = Some 50\<rparr> emptyStart
   \<and> waitForRemovalFromDom 1 (Number 1000) emptyStart = waitForRemovalFromDom 1 intervalStrategy emptyStart
   \<and> waitForRemovalFromDom 1 (Number 1000) emptyStart
       = waitForRemovalFromDomWithInterval 1 (Some 1000) (Some 50) emptyStart"
proof -
  have q: "querySelector emptyStart ''#test'' (heap emptyStart 0) = None"
    using emptyPage_query by (simp add: emptyStart_def)
  have c: "isConnected (heap emptyStart 1)"
    using emptyPage_connected by (simp add: emptyStart_def)
  from number_is_interval_descriptor [of "''#test''" 0 1000 emptyStart 1] q c show ?thesis
    unfolding intervalStrategy_def by blast
qed

text \<open>
  Claim C8. Where a descriptor leaves \<open>timeoutInMil\<close> or \<open>intervalInMil\<close> out, the
  implementations take 10000 for the timeout (both strategies, both waiters) and 50 for
  the poll interval (interval strategy); a value that is given is used as it is. The
  timers of a call that has to wait are exactly the interval (when polling) and the
  timeout with these delays.
\<close>

theorem defaults_substituted:
  "(querySelector (fresh hp m) selector (hp ancestor) = None \<longrightarrow>
      timers (snd (select selector ancestor
          (Descriptor \<lparr>variant = ''interval'', timeoutInMil = t, intervalInMil = i\<rparr>) (fresh hp m)))
        = [(0, \<lparr>callback = SelectPoll selector ancestor,
                delay = (case i of None \<Rightarrow> 50 | Some x \<Rightarrow> x), repeats = True\<rparr>),
           (1, \<lparr>callback = TimeoutFired,
                delay = (case t of None \<Rightarrow> 10000 | Some x \<Rightarrow> x), repeats = False\<rparr>)]
      \<and> timers (snd (select selector ancestor
          (Descriptor \<lparr>variant = ''observer'', timeoutInMil = t, intervalInMil = i\<rparr>) (fresh hp m)))
        = [(1, \<lparr>callback = TimeoutFired,
                delay = (case t of None \<Rightarrow> 10000 | Some x \<Rightarrow> x), repeats = False\<rparr>)])
   \<and> (isConnected (hp element) \<longrightarrow>
      timers (snd (waitForRemovalFromDom element
          (Descriptor \<lparr>variant = ''interval'', timeoutInMil = t, intervalInMil = i\<rparr>) (fresh hp m)))
        = [(0, \<lparr>callback = RemovalPoll element,
                delay = (case i of None \<Rightarrow> 50 | Some x \<Rightarrow> x), repeats = True\<rparr>),
           (1, \<lparr>callback = TimeoutFired,
                delay = (case t of None \<Rightarrow> 10000 | Some x \<Rightarrow> x), repeats = False\<rparr>)]
      \<and> timers (snd (waitForRemovalFromDom element
          (Descriptor \<lparr>variant = ''observer'', timeoutInMil = t, intervalInMil = i\<rparr>) (fresh hp m)))
        = [(1, \<lparr>callback = TimeoutFired,
                delay = (case t of None \<Rightarrow> 10000 | Some x \<Rightarrow> x), repeats = False\<rparr>)])"
  by (cases t; cases i)
     (simp_all add: select_def waitForRemovalFromDom_def selectWithInterval_def selectOnlyObserver_def
      waitForRemovalFromDomWithInterval_def waitForRemovalFromDomWithMutationObserver_def
      setInterval_def setTimeout_def newMutationObserver_def observe_def newPromise_def fresh_def)

theorem defaults_substituted_witness:
  "querySelector (fresh emptyPage exampleMatches) ''#test'' (emptyPage 0) = None
   \<and> isConnected (emptyPage 1)
   \<and> timers (snd (select ''#test'' 0
          (Descriptor \<lparr>variant = ''interval'', timeoutInMil = None, intervalInMil = None\<rparr>)
          (fresh emptyPage exampleMatches)))
        = [(0, \<lparr>callback = SelectPoll ''#test'' 0, delay = 50, repeats = True\<rparr>),
           (1, \<lparr>callback = TimeoutFired, delay = 10000, repeats = False\<rparr>)]
   \<and> timers (snd (select ''#test'' 0
          (Descriptor \<lparr>variant = ''observer'', timeoutInMil = None, intervalInMil = None\<rparr>)
          (fresh emptyPage exampleMatches)))
        = [(1, \<lparr>callback = TimeoutFired, delay = 10000, repeats = False\<rparr>)]
   \<and> timers (snd (waitForRemovalFromDom 1
          (Descriptor \<lparr>variant = ''interval'', timeoutInMil = None, intervalInMil = None\<rparr>)
          (fresh emptyPage exampleMatches)))
        = [(0, \<lparr>callback = RemovalPoll 1, delay = 50, repeats = True\<rparr>),
           (1, \<lparr>callback = TimeoutFired, delay = 10000, repeats = False\<rparr>)]
   \<and> timers (snd (waitForRemovalFromDom 1
          (Descriptor \<lparr>variant = ''observer'', timeoutInMil = None, intervalInMil = None\<rparr>)
          (fresh emptyPage exampleMatches)))
        = [(1, \<lparr>callback = TimeoutFired, delay = 10000, repeats = False\<rparr>)]"
  using defaults_substituted [of emptyPage exampleMatches "''#test''" 0 None None 1]
    emptyPage_query emptyPage_connected
  by simp

text \<open>
  Claim C9. When the strategy is an object whose \<open>variant\<close> is neither \<open>"interval"\<close> nor
  \<open>"observer"\<close> and the early exit does not apply, \<open>select\<close> and \<open>waitForRemovalFromDom\<close>
  resolve with \<open>undefined\<close>, not with \<open>null\<close> or \<open>false\<close> and not with an error: the switch
  has no default branch, and nothing is set up.
\<close>

theorem unknown_variant_undefined:
  "variant d \<noteq> ''interval'' \<Longrightarrow> variant d \<noteq> ''observer'' \<Longrightarrow>
   (querySelector s selector (heap s ancestor) = None \<longrightarrow>
      select selector ancestor (Descriptor d) s = (Returned VUndefined, s)
      \<and> settled (fst (select selector ancestor (Descriptor d) s)) s' = Some (Return VUndefined))
   \<and> (isConnected (heap s element) \<longrightarrow>
      waitForRemovalFromDom element (Descriptor d) s = (Returned VUndefined, s)
      \<and> settled (fst (waitForRemovalFromDom element (Descriptor d) s)) s' = Some (Return VUndefined))"
  by (simp add: select_def waitForRemovalFromDom_def)

theorem unknown_variant_undefined_witness:
  "querySelector emptyStart ''#test'' (heap emptyStart 0) = None
   \<and> isConnected (heap emptyStart 1)
   \<and> select ''#test'' 0 (Descriptor \<lparr>variant = ''polling'', timeoutInMil = Some 1000, intervalInMil = None\<rparr>) emptyStart
       = (Returned VUndefined, emptyStart)
   \<and> waitForRemovalFromDom 1 (Descriptor \<lparr>variant = ''polling'', timeoutInMil = Some 1000, intervalInMil = None\<rparr>) emptyStart
       = (Returned VUndefined, emptyStart)"
proof -
  have q: "querySelector emptyStart ''#test'' (heap emptyStart 0) = None"
    using emptyPage_query by (simp add: emptyStart_def)
  have c: "isConnected (heap emptyStart 1)"
    using emptyPage_connected by (simp add: emptyStart_def)
  have v: "variant \<lparr>variant = ''polling'', timeoutInMil = Some 1000, intervalInMil = None\<rparr> \<noteq> ''interval''"
    "variant \<lparr>variant = ''polling'', timeoutInMil = Some 1000, intervalInMil = None\<rparr> \<noteq> ''observer''"
    by simp_all
  from unknown_variant_undefined [OF v, of emptyStart "''#test''" 0 emptyStart 1] q c
  show ?thesis by blast
qed

text \<open>
  Claim C10. When the early exit applies, the result of \<open>select\<close> and of
  \<open>waitForRemovalFromDom\<close> does not depend on the strategy argument: two calls that differ
  only in the strategy, a malformed one such as \<open>null\<close> included, return the same.
\<close>

theorem early_result_ignores_strategy:
  "(querySelector s selector (heap s ancestor) \<noteq> None \<longrightarrow>
      select selector ancestor strategy1 s = select selector ancestor strategy2 s)
   \<and> (\<not> isConnected (heap s element) \<longrightarrow>
      waitForRemovalFromDom element strategy1 s = waitForRemovalFromDom element strategy2 s)"
  by (auto simp add: select_def waitForRemovalFromDom_def)

theorem early_result_ignores_strategy_witness:
  "querySelector (fresh pageWithTest exampleMatches) ''#test'' (heap (fresh pageWithTest exampleMatches) 0) \<noteq> None
   \<and> select ''#test'' 0 NullValue (fresh pageWithTest exampleMatches)
       = select ''#test'' 0 observerStrategy (fresh pageWithTest exampleMatches)
   \<and> \<not> isConnected (heap (fresh pageWithTest exampleMatches) 1)
   \<and> waitForRemovalFromDom 1 NullValue (fresh pageWithTest exampleMatches)
       = waitForRemovalFromDom 1 observerStrategy (fresh pageWithTest exampleMatches)"
proof -
  have a: "querySelector (fresh pageWithTest exampleMatches) ''#test'' (heap (fresh pageWithTest exampleMatches) 0) \<noteq> None"
    using pageWithTest_query by simp
  have b: "\<not> isConnected (heap (fresh pageWithTest exampleMatches) 1)"
    by (simp add: pageWithTest_def)
  from early_result_ignores_strategy [of "fresh pageWithTest exampleMatches" "''#test''" 0 NullValue observerStrategy 1] a b
  show ?thesis by blast
qed

end
